theory Spec2Isabelle
  imports
    Main
    "HOL-Library.AList"
    "HOL-Library.FSet"
    "HOL-Library.Multiset"
    "HOL-Library.Char_ord"
    "HOL-Library.List_Lexorder"
    "HOL-Library.Product_Lexorder"
begin

section \<open>The class-diagram model of \<^verbatim>\<open>score_metamodel/diagram.py\<close>\<close>

text \<open>
  Python strings are modelled as \<^typ>\<open>string\<close>; one \<^typ>\<open>char\<close> stands for one
  code point (the model is exact for code points below 256). Strings are compared
  lexicographically by code point, which is what \<^verbatim>\<open>sorted\<close> does in Python.
  A Python \<^verbatim>\<open>dict\<close> is an association list in insertion order:
  \<^const>\<open>map_of\<close> reads it, \<^const>\<open>AList.update\<close> writes it (an existing key keeps its
  place, a new key goes to the end).
\<close>

datatype Visibility = PUBLIC | PRIVATE | PROTECTED | PACKAGE

fun Visibility_value :: "Visibility \<Rightarrow> string" where
  "Visibility_value PUBLIC = ''+''"
| "Visibility_value PRIVATE = ''-''"
| "Visibility_value PROTECTED = ''#''"
| "Visibility_value PACKAGE = ''~''"

datatype RelationKind =
  ASSOCIATION | UNDIRECTED | INHERITANCE | IMPLEMENTS | DEPENDENCY | COMPOSITION | AGGREGATION

fun RelationKind_value :: "RelationKind \<Rightarrow> string" where
  "RelationKind_value ASSOCIATION = ''association''"
| "RelationKind_value UNDIRECTED = ''undirected''"
| "RelationKind_value INHERITANCE = ''inheritance''"
| "RelationKind_value IMPLEMENTS = ''implements''"
| "RelationKind_value DEPENDENCY = ''dependency''"
| "RelationKind_value COMPOSITION = ''composition''"
| "RelationKind_value AGGREGATION = ''aggregation''"

record Member =
  member_name :: string
  visibility :: Visibility
  type_hint :: "string option"

record ClassNode =
  node_name :: string
  stereotype :: "string option"
  members :: "Member list"

record Relation =
  src :: string
  dst :: string
  kind :: RelationKind
  label :: "string option"

record ClassDiagram =
  classes :: "(string \<times> ClassNode) list"
  relations :: "Relation list"

text \<open>Every \<^verbatim>\<open>raise\<close> of the file is a \<^verbatim>\<open>ValueError\<close>; the message is kept.\<close>

datatype error = ValueError string | KeyError string

text \<open>
  A method that raises leaves the object as it was at the \<^verbatim>\<open>raise\<close>. Each method
  therefore returns its outcome together with the diagram as it is afterwards.
\<close>

definition ensure_class ::
  "ClassDiagram \<Rightarrow> string \<Rightarrow> string option \<Rightarrow> (error + ClassNode) \<times> ClassDiagram" where
  "ensure_class d name st =
     (if name = [] then (Inl (ValueError ''class name must not be empty''), d)
      else case map_of (classes d) name of
        None \<Rightarrow>
          (let node = \<lparr>node_name = name, stereotype = st, members = []\<rparr>
           in (Inr node, d\<lparr>classes := AList.update name node (classes d)\<rparr>))
      | Some node \<Rightarrow>
          (if st \<noteq> None \<and> stereotype node = None
           then (let node' = node\<lparr>stereotype := st\<rparr>
                 in (Inr node', d\<lparr>classes := AList.update name node' (classes d)\<rparr>))
           else (Inr node, d)))"

definition add_class ::
  "ClassDiagram \<Rightarrow> string \<Rightarrow> string option \<Rightarrow> (error + ClassNode) \<times> ClassDiagram" where
  "add_class d name st = ensure_class d name st"

definition add_member ::
  "ClassDiagram \<Rightarrow> string \<Rightarrow> string \<Rightarrow> Visibility \<Rightarrow> string option
     \<Rightarrow> (error + unit) \<times> ClassDiagram" where
  "add_member d class_name mname vis hint =
     (if mname = [] then (Inl (ValueError ''member name must not be empty''), d)
      else case ensure_class d class_name None of
        (Inl e, d') \<Rightarrow> (Inl e, d')
      | (Inr node, d') \<Rightarrow>
          (Inr (),
           d'\<lparr>classes :=
                AList.update class_name
                  (node\<lparr>members :=
                     members node @ [\<lparr>member_name = mname, visibility = vis, type_hint = hint\<rparr>]\<rparr>)
                  (classes d')\<rparr>))"

definition relate ::
  "ClassDiagram \<Rightarrow> string \<Rightarrow> string \<Rightarrow> RelationKind \<Rightarrow> string option
     \<Rightarrow> (error + unit) \<times> ClassDiagram" where
  "relate d s t k l =
     (if s = [] \<or> t = [] then (Inl (ValueError ''relation endpoints must not be empty''), d)
      else case ensure_class d s None of
        (Inl e, d1) \<Rightarrow> (Inl e, d1)
      | (Inr _, d1) \<Rightarrow>
          (case ensure_class d1 t None of
             (Inl e, d2) \<Rightarrow> (Inl e, d2)
           | (Inr _, d2) \<Rightarrow>
               (Inr (),
                d2\<lparr>relations := relations d2 @ [\<lparr>src = s, dst = t, kind = k, label = l\<rparr>]\<rparr>)))"

definition empty_diagram :: ClassDiagram where
  "empty_diagram = \<lparr>classes = [], relations = []\<rparr>"

subsection \<open>The alias map of the PlantUML renderer\<close>

record AliasMap =
  alias_map :: "(string \<times> string) list"
  alias_used :: "string fset"

definition new_AliasMap :: AliasMap where
  "new_AliasMap = \<lparr>alias_map = [], alias_used = {||}\<rparr>"

definition VALID_CHARS :: "char \<Rightarrow> bool" where
  "VALID_CHARS ch \<longleftrightarrow>
     (CHR ''A'' \<le> ch \<and> ch \<le> CHR ''Z'') \<or> (CHR ''a'' \<le> ch \<and> ch \<le> CHR ''z'')
     \<or> (CHR ''0'' \<le> ch \<and> ch \<le> CHR ''9'') \<or> ch = CHR ''_''"

definition strip_underscores :: "string \<Rightarrow> string" where
  "strip_underscores s =
     rev (dropWhile (\<lambda>c. c = CHR ''_'') (rev (dropWhile (\<lambda>c. c = CHR ''_'') s)))"

text \<open>
  The characters that the string functions name, and \<^verbatim>\<open>repr\<close> of a string, which the
  message of \<^verbatim>\<open>_sanitize\<close> formats with \<^verbatim>\<open>{name!r}\<close>: the text in single quotes, or in
  double quotes when it holds a single quote and no double quote; the quote and the
  backslash escaped, tab, newline and carriage return written as \<^verbatim>\<open>\t\<close>, \<^verbatim>\<open>\n\<close>, \<^verbatim>\<open>\r\<close>, and
  every other code point that is not printable (below 32, 127 to 160, and 173) as
  \<^verbatim>\<open>\x\<close> and two hexadecimal digits.
\<close>

definition NL :: char where "NL = CHR 0x0A"
definition CR :: char where "CR = CHR 0x0D"
definition TAB :: char where "TAB = CHR 0x09"
definition DQ :: char where "DQ = CHR 0x22"
definition SQ :: char where "SQ = CHR 0x27"
definition BS :: char where "BS = CHR 0x5C"

definition hex_digit :: "nat \<Rightarrow> char" where
  "hex_digit d = (if d < 10 then char_of (48 + d) else char_of (87 + d))"

definition repr_char :: "char \<Rightarrow> char \<Rightarrow> string" where
  "repr_char quote ch =
     (if ch = quote \<or> ch = BS then [BS, ch]
      else if ch = TAB then [BS, CHR ''t'']
      else if ch = NL then [BS, CHR ''n'']
      else if ch = CR then [BS, CHR ''r'']
      else if (of_char ch :: nat) < 32 \<or> (127 \<le> (of_char ch :: nat) \<and> (of_char ch :: nat) \<le> 160)
              \<or> (of_char ch :: nat) = 173
      then [BS, CHR ''x'', hex_digit (of_char ch div 16), hex_digit (of_char ch mod 16)]
      else [ch])"

definition repr :: "string \<Rightarrow> string" where
  "repr s =
     (let quote = (if SQ \<in> set s \<and> DQ \<notin> set s then DQ else SQ)
      in [quote] @ concat (map (repr_char quote) s) @ [quote])"

definition sanitize :: "string \<Rightarrow> error + string" where
  "sanitize name =
     (let chars = map (\<lambda>ch. if VALID_CHARS ch then ch else CHR ''_'') name;
          alias = strip_underscores chars
      in if alias = [] then Inl (ValueError (''Cannot create alias for name: '' @ repr name))
         else Inr alias)"

text \<open>\<^verbatim>\<open>str(counter)\<close>: the decimal numeral of a natural number.\<close>

definition digit_char :: "nat \<Rightarrow> char" where
  "digit_char d = char_of (48 + d)"

function str_nat :: "nat \<Rightarrow> string" where
  "str_nat n = (if n < 10 then [digit_char n] else str_nat (n div 10) @ [digit_char (n mod 10)])"
  by pat_completeness auto
termination
  by (relation "measure (\<lambda>n. n)") auto

declare str_nat.simps [simp del]

definition suffixed :: "string \<Rightarrow> nat \<Rightarrow> string" where
  "suffixed base counter = base @ ''_'' @ str_nat counter"

text \<open>
  The candidates \<open>base_2\<close>, \<open>base_3\<close>, ... are pairwise different, so only finitely
  many of them lie in a finite set; this is what makes the loop of
  \<^verbatim>\<open>_create_alias\<close> terminate.
\<close>

definition nat_of_str :: "string \<Rightarrow> nat" where
  "nat_of_str s = foldl (\<lambda>acc c. 10 * acc + (of_char c - 48)) 0 s"

lemma nat_of_str_snoc: "nat_of_str (s @ [c]) = 10 * nat_of_str s + (of_char c - 48)"
  by (simp add: nat_of_str_def)

lemma of_char_digit_char: "d < 10 \<Longrightarrow> of_char (digit_char d) = (48 + d :: nat)"
  by (simp add: digit_char_def)

lemma nat_of_str_str_nat: "nat_of_str (str_nat n) = n"
proof (induction n rule: str_nat.induct)
  case (1 n)
  show ?case
  proof (cases "n < 10")
    case True
    then show ?thesis
      by (subst str_nat.simps) (simp add: nat_of_str_def of_char_digit_char)
  next
    case False
    then have "nat_of_str (str_nat (n div 10)) = n div 10" using 1 by simp
    with False show ?thesis
      by (subst str_nat.simps) (simp add: nat_of_str_snoc of_char_digit_char)
  qed
qed

lemma str_nat_inj: "str_nat m = str_nat n \<Longrightarrow> m = n"
  by (metis nat_of_str_str_nat)

lemma suffixed_inj: "suffixed base m = suffixed base n \<Longrightarrow> m = n"
  by (simp add: suffixed_def str_nat_inj)

lemma finite_suffixed_used: "finite {k. suffixed base k |\<in>| used}"
proof -
  have "inj_on (suffixed base) {k. suffixed base k |\<in>| used}"
    by (auto simp: inj_on_def dest: suffixed_inj)
  moreover have "suffixed base ` {k. suffixed base k |\<in>| used} \<subseteq> fset used"
    by auto
  ultimately show ?thesis
    by (meson finite_fset finite_subset finite_imageD)
qed

text \<open>
  The \<^verbatim>\<open>while alias in self._used\<close> loop of \<^verbatim>\<open>_create_alias\<close>, with the loop
  variables \<open>al\<close> (the source's \<^verbatim>\<open>alias\<close>) and \<open>counter\<close>.
\<close>

function alias_loop :: "string fset \<Rightarrow> string \<Rightarrow> string \<Rightarrow> nat \<Rightarrow> string" where
  "alias_loop used base al counter =
     (if al |\<in>| used then alias_loop used base (suffixed base counter) (counter + 1)
      else al)"
  by pat_completeness auto
termination
proof (relation "measure (\<lambda>(used, base, al, counter).
          card {k. counter \<le> k \<and> suffixed base k |\<in>| used} + (if al |\<in>| used then 1 else 0))")
  show "wf (measure (\<lambda>(used, base, al, counter).
          card {k. counter \<le> k \<and> suffixed base k |\<in>| used} + (if al |\<in>| used then 1 else 0)))"
    by simp
next
  fix used :: "string fset" and base al :: string and counter :: nat
  assume "al |\<in>| used"
  let ?S = "{k. counter \<le> k \<and> suffixed base k |\<in>| used}"
  let ?T = "{k. counter + 1 \<le> k \<and> suffixed base k |\<in>| used}"
  have fin: "finite ?S" using finite_suffixed_used [of base used] by (rule rev_finite_subset) auto
  have "card ?T + (if suffixed base counter |\<in>| used then 1 else 0) = card ?S"
  proof (cases "suffixed base counter |\<in>| used")
    case True
    then have "?S = insert counter ?T" by (auto simp: le_Suc_eq)
    moreover have "counter \<notin> ?T" by simp
    moreover have "finite ?T" using fin by (rule rev_finite_subset) auto
    ultimately show ?thesis using True by simp
  next
    case False
    then have "?S = ?T" by (auto simp: le_Suc_eq) (metis Suc_leI le_neq_implies_less)
    then show ?thesis using False by simp
  qed
  then show "((used, base, suffixed base counter, counter + 1), (used, base, al, counter))
        \<in> measure (\<lambda>(used, base, al, counter).
          card {k. counter \<le> k \<and> suffixed base k |\<in>| used} + (if al |\<in>| used then 1 else 0))"
    using \<open>al |\<in>| used\<close> by simp
qed

declare alias_loop.simps [simp del]

definition create_alias :: "AliasMap \<Rightarrow> string \<Rightarrow> (error + string) \<times> AliasMap" where
  "create_alias am name =
     (case sanitize name of
        Inl e \<Rightarrow> (Inl e, am)
      | Inr base \<Rightarrow>
          (let al = alias_loop (alias_used am) base base 2
           in (Inr al, am\<lparr>alias_used := finsert al (alias_used am)\<rparr>)))"

definition getitem :: "AliasMap \<Rightarrow> string \<Rightarrow> (error + string) \<times> AliasMap" where
  "getitem am name =
     (case map_of (alias_map am) name of
        None \<Rightarrow>
          (case create_alias am name of
             (Inl e, am') \<Rightarrow> (Inl e, am')
           | (Inr al, am') \<Rightarrow> (Inr al, am'\<lparr>alias_map := AList.update name al (alias_map am')\<rparr>))
      | Some al \<Rightarrow> (Inr al, am))"

text \<open>A run of \<^verbatim>\<open>alias[name]\<close> requests on one map, stopping at the first error.\<close>

fun getitems :: "AliasMap \<Rightarrow> string list \<Rightarrow> (error + string list) \<times> AliasMap" where
  "getitems am [] = (Inr [], am)"
| "getitems am (n # ns) =
     (case getitem am n of
        (Inl e, am') \<Rightarrow> (Inl e, am')
      | (Inr al, am') \<Rightarrow>
          (case getitems am' ns of
             (Inl e, am'') \<Rightarrow> (Inl e, am'')
           | (Inr als, am'') \<Rightarrow> (Inr (al # als), am'')))"

subsection \<open>The PlantUML renderer\<close>

fun ARROWS :: "RelationKind \<Rightarrow> string" where
  "ARROWS ASSOCIATION = ''-->''"
| "ARROWS UNDIRECTED = ''--''"
| "ARROWS INHERITANCE = ''<|--''"
| "ARROWS IMPLEMENTS = ''<|..''"
| "ARROWS DEPENDENCY = ''..>''"
| "ARROWS COMPOSITION = ''*--''"
| "ARROWS AGGREGATION = ''o--''"

text \<open>\<^verbatim>\<open>str.replace\<close> for a one-character and for a two-character pattern.\<close>

definition replace_char :: "char \<Rightarrow> string \<Rightarrow> string \<Rightarrow> string" where
  "replace_char a new text = concat (map (\<lambda>c. if c = a then new else [c]) text)"

fun replace_pair :: "char \<Rightarrow> char \<Rightarrow> string \<Rightarrow> string \<Rightarrow> string" where
  "replace_pair a b new (x # y # zs) =
     (if x = a \<and> y = b then new @ replace_pair a b new zs
      else x # replace_pair a b new (y # zs))"
| "replace_pair a b new zs = zs"

definition quote :: "string \<Rightarrow> string" where
  "quote text = [DQ] @ replace_char DQ [BS, DQ] text @ [DQ]"

definition escape_label :: "string \<Rightarrow> string" where
  "escape_label text = replace_char CHR '':'' [BS, CHR '':''] (replace_char CR '' '' (replace_char NL '' '' text))"

definition escape_stereotype :: "string \<Rightarrow> string" where
  "escape_stereotype text =
     replace_pair CHR ''>'' CHR ''>'' ''> >''
       (replace_pair CHR ''<'' CHR ''<'' ''< <''
          (replace_char CR '' '' (replace_char NL '' '' text)))"

text \<open>Python's truth value of an optional string: \<^verbatim>\<open>None\<close> and \<^verbatim>\<open>""\<close> are false.\<close>

fun truthy :: "string option \<Rightarrow> bool" where
  "truthy None = False"
| "truthy (Some s) = (s \<noteq> [])"

fun or_empty :: "string option \<Rightarrow> string" where
  "or_empty None = []"
| "or_empty (Some s) = s"

definition member_line :: "Member \<Rightarrow> string" where
  "member_line m =
     (if truthy (type_hint m)
      then ''  '' @ Visibility_value (visibility m) @ '' '' @ member_name m @ '' : '' @ or_empty (type_hint m)
      else ''  '' @ Visibility_value (visibility m) @ '' '' @ member_name m)"

definition class_header :: "string \<Rightarrow> ClassNode \<Rightarrow> string" where
  "class_header cid c =
     (if truthy (stereotype c)
      then ''class '' @ cid @ '' as '' @ quote (node_name c) @ '' <<''
             @ escape_stereotype (or_empty (stereotype c)) @ ''>> {''
      else ''class '' @ cid @ '' as '' @ quote (node_name c) @ '' {'')"

fun render_classes ::
  "AliasMap \<Rightarrow> string list \<Rightarrow> ClassNode list \<Rightarrow> error + (AliasMap \<times> string list)" where
  "render_classes am lines [] = Inr (am, lines)"
| "render_classes am lines (c # cs) =
     (case getitem am (node_name c) of
        (Inl e, am') \<Rightarrow> Inl e
      | (Inr cid, am') \<Rightarrow>
          render_classes am'
            (lines @ [class_header cid c] @ map member_line (members c) @ [''}'']) cs)"

definition relation_line :: "string \<Rightarrow> string \<Rightarrow> Relation \<Rightarrow> string" where
  "relation_line s t r =
     (if truthy (label r)
      then s @ '' '' @ ARROWS (kind r) @ '' '' @ t @ '' : '' @ escape_label (or_empty (label r))
      else s @ '' '' @ ARROWS (kind r) @ '' '' @ t)"

fun render_relations ::
  "AliasMap \<Rightarrow> string list \<Rightarrow> Relation list \<Rightarrow> error + (AliasMap \<times> string list)" where
  "render_relations am lines [] = Inr (am, lines)"
| "render_relations am lines (r # rs) =
     (case getitem am (src r) of
        (Inl e, am1) \<Rightarrow> Inl e
      | (Inr s, am1) \<Rightarrow>
          (case getitem am1 (dst r) of
             (Inl e, am2) \<Rightarrow> Inl e
           | (Inr t, am2) \<Rightarrow> render_relations am2 (lines @ [relation_line s t r]) rs))"

fun join :: "string \<Rightarrow> string list \<Rightarrow> string" where
  "join sep [] = []"
| "join sep [x] = x"
| "join sep (x # y # zs) = x @ sep @ join sep (y # zs)"

definition relation_key :: "Relation \<Rightarrow> string \<times> string \<times> string \<times> string" where
  "relation_key r = (src r, dst r, RelationKind_value (kind r), or_empty (label r))"

definition render :: "ClassDiagram \<Rightarrow> error + string" where
  "render diagram =
     (let cs = sort_key node_name (map snd (classes diagram));
          rs = sort_key relation_key (relations diagram)
      in case render_classes new_AliasMap [] cs of
           Inl e \<Rightarrow> Inl e
         | Inr (am, lines) \<Rightarrow>
             (case render_relations am lines rs of
                Inl e \<Rightarrow> Inl e
              | Inr (am', lines') \<Rightarrow> Inr (join [NL] lines' @ [NL])))"

subsection \<open>Well-formed class mappings and example values\<close>

text \<open>
  \<^verbatim>\<open>classes\<close> maps a class name to the node of that name: every key is the
  \<^verbatim>\<open>name\<close> of its node, and (as in any \<^verbatim>\<open>dict\<close>) no key occurs twice.
  \<^verbatim>\<open>_ensure_class\<close> only ever stores a node under its own name.
\<close>

definition name_keyed :: "(string \<times> ClassNode) list \<Rightarrow> bool" where
  "name_keyed cs \<longleftrightarrow> distinct (map fst cs) \<and> list_all (\<lambda>(k, c). node_name c = k) cs"

definition example_am1 :: AliasMap where
  "example_am1 = snd (getitem new_AliasMap ''A B'')"

definition example_am2 :: AliasMap where
  "example_am2 = snd (getitems example_am1 [''A.B''])"

definition example_d1 :: ClassDiagram where
  "example_d1 =
     \<lparr>classes =
        [(''A'', \<lparr>node_name = ''A'', stereotype = None,
                  members = [\<lparr>member_name = ''id'', visibility = PUBLIC, type_hint = None\<rparr>]\<rparr>),
         (''B'', \<lparr>node_name = ''B'', stereotype = Some ''Entity'', members = []\<rparr>)],
      relations =
        [\<lparr>src = ''A'', dst = ''B'', kind = ASSOCIATION, label = Some ''uses''\<rparr>,
         \<lparr>src = ''A'', dst = ''B'', kind = ASSOCIATION, label = None\<rparr>,
         \<lparr>src = ''A'', dst = ''B'', kind = ASSOCIATION, label = Some []\<rparr>]\<rparr>"

definition example_d2 :: ClassDiagram where
  "example_d2 =
     \<lparr>classes =
        [(''B'', \<lparr>node_name = ''B'', stereotype = Some ''Entity'', members = []\<rparr>),
         (''A'', \<lparr>node_name = ''A'', stereotype = None,
                  members = [\<lparr>member_name = ''id'', visibility = PUBLIC, type_hint = None\<rparr>]\<rparr>)],
      relations =
        [\<lparr>src = ''A'', dst = ''B'', kind = ASSOCIATION, label = Some []\<rparr>,
         \<lparr>src = ''A'', dst = ''B'', kind = ASSOCIATION, label = None\<rparr>,
         \<lparr>src = ''A'', dst = ''B'', kind = ASSOCIATION, label = Some ''uses''\<rparr>]\<rparr>"

section \<open>The drawing functions of \<^verbatim>\<open>score_draw_uml_funcs/__init__.py\<close>\<close>

text \<open>
  A need is a \<^verbatim>\<open>dict\<close> with the keys \<^verbatim>\<open>id\<close>, \<^verbatim>\<open>type\<close>, \<^verbatim>\<open>title\<close> and the
  relation fields; a relation field that is absent reads as the empty list
  (\<^verbatim>\<open>need.get("includes", [])\<close>). The fields carry the prefix \<open>need_\<close> because
  \<open>id\<close>, \<open>type\<close> and \<open>includes\<close> are taken in Isabelle. \<^verbatim>\<open>all_needs\<close> and the two
  registries are dictionaries, hence association lists in insertion order. A Python
  \<^verbatim>\<open>set\<close> of strings is a list without repetitions; Python leaves the iteration
  order of a set open, the model iterates in insertion order. Calls of the logger and
  \<^verbatim>\<open>print\<close> change no value and are left out.
\<close>

record need =
  need_id :: string
  need_type :: string
  need_title :: string
  need_includes :: "string list"
  need_consists_of :: "string list"
  need_implements :: "string list"
  need_uses :: "string list"

type_synonym all_needs = "(string \<times> need) list"
type_synonym registry = "(string \<times> string list) list"

text \<open>
  The functions imported from \<^verbatim>\<open>score_draw_uml_funcs.helpers\<close> are not part of the
  sources at hand. The drawing functions take them as a parameter, a record of
  functions; whatever is proved for every value of this record holds for the real
  helpers as long as they return.
\<close>

record helpers =
  gen_header :: string
  gen_interface_element :: "string \<Rightarrow> all_needs \<Rightarrow> bool \<Rightarrow> string"
  gen_link_text :: "need \<Rightarrow> string \<Rightarrow> need \<Rightarrow> string \<Rightarrow> string"
  gen_struct_element :: "string \<Rightarrow> need \<Rightarrow> string"
  get_alias :: "need \<Rightarrow> string"
  get_hierarchy_text :: "string \<Rightarrow> all_needs \<Rightarrow> string \<times> string \<times> string \<times> string"
  get_impl_comp_from_logic_iface :: "string \<Rightarrow> all_needs \<Rightarrow> string list"
  get_interface_from_component :: "need \<Rightarrow> string \<Rightarrow> all_needs \<Rightarrow> string list"
  get_interface_from_int :: "string \<Rightarrow> all_needs \<Rightarrow> string"
  get_module :: "string \<Rightarrow> all_needs \<Rightarrow> string"

text \<open>\<^verbatim>\<open>d.get(k, [])\<close> on a registry, and \<^verbatim>\<open>set.add\<close>, \<^verbatim>\<open>set.update\<close>.\<close>

definition get_list :: "registry \<Rightarrow> string \<Rightarrow> string list" where
  "get_list d k = (case map_of d k of None \<Rightarrow> [] | Some l \<Rightarrow> l)"

definition set_add :: "string list \<Rightarrow> string \<Rightarrow> string list" where
  "set_add s x = (if x \<in> set s then s else s @ [x])"

definition set_update :: "string list \<Rightarrow> string list \<Rightarrow> string list" where
  "set_update s xs = foldl set_add s xs"

text \<open>The dictionary \<^verbatim>\<open>{'id': 'Feature_User'}\<close> that stands for the actor.\<close>

definition Feature_User :: need where
  "Feature_User =
     \<lparr>need_id = ''Feature_User'', need_type = [], need_title = [], need_includes = [],
      need_consists_of = [], need_implements = [], need_uses = []\<rparr>"

text \<open>The closing line \<^verbatim>\<open>f"}} /' {need['title']} '/ \n\n"\<close> of a block.\<close>

definition close_block :: "need \<Rightarrow> string" where
  "close_block n = ''} /'' @ [SQ] @ '' '' @ need_title n @ '' '' @ [SQ] @ ''/ '' @ [NL, NL]"

fun process_interfaces ::
  "helpers \<Rightarrow> string list \<Rightarrow> string \<Rightarrow> need \<Rightarrow> all_needs \<Rightarrow> registry \<Rightarrow> string
     \<Rightarrow> string \<times> registry" where
  "process_interfaces h [] relation n an proc_dict linkage_text = (linkage_text, proc_dict)"
| "process_interfaces h (iface # rest) relation n an proc_dict linkage_text =
     (case map_of an iface of
        None \<Rightarrow> process_interfaces h rest relation n an proc_dict linkage_text
      | Some iface_need \<Rightarrow>
          (if relation = ''implements'' then
             (let proc1 = (if get_list proc_dict iface = []
                           then AList.update iface [] proc_dict else proc_dict)
              in if need_id n \<notin> set (get_list proc1 iface)
                 then process_interfaces h rest relation n an
                        (AList.update iface (get_list proc1 iface @ [need_id n]) proc1)
                        (linkage_text @ gen_link_text h n ''-u->'' iface_need ''implements''
                           @ '' '' @ [NL])
                 else process_interfaces h rest relation n an proc1 linkage_text)
           else
             (if get_list proc_dict iface = []
              then process_interfaces h rest relation n an
                     (AList.update iface [need_id n] proc_dict) linkage_text
              else process_interfaces h rest relation n an
                     (AList.update iface (get_list proc_dict iface @ [need_id n]) proc_dict)
                     linkage_text)))"

text \<open>
  \<^verbatim>\<open>draw_comp_incl_impl_int\<close> calls itself for every sub-component, with no record of
  the components it has entered. The model bounds the depth of the recursion by a
  fuel argument: \<open>None\<close> means that this depth did not suffice.

  \<^verbatim>\<open>draw_sub_components\<close> is the loop \<^verbatim>\<open>for need_inc in sub_components\<close>; its first
  argument stands for the recursive call in the loop body.
\<close>

type_synonym draw_result = "string \<times> string \<times> registry \<times> registry"

fun draw_sub_components ::
  "(need \<Rightarrow> registry \<Rightarrow> registry \<Rightarrow> bool \<Rightarrow> draw_result option)
     \<Rightarrow> string list \<Rightarrow> all_needs \<Rightarrow> draw_result \<Rightarrow> draw_result option" where
  "draw_sub_components rec [] an acc = Some acc"
| "draw_sub_components rec (need_inc # rest) an acc =
     (case map_of an need_inc of
        None \<Rightarrow> draw_sub_components rec rest an acc
      | Some curr_need \<Rightarrow>
          (if need_type curr_need \<notin> {''comp'', ''comp_arc_sta''}
           then draw_sub_components rec rest an acc
           else (case acc of (structure_text, linkage_text, proc_impl, proc_used) \<Rightarrow>
                  (case rec curr_need proc_impl proc_used (need_consists_of curr_need \<noteq> []) of
                     None \<Rightarrow> None
                   | Some (sub_structure, sub_linkage, proc_impl', proc_used') \<Rightarrow>
                       draw_sub_components rec rest an
                         (structure_text @ sub_structure, linkage_text @ sub_linkage,
                          proc_impl', proc_used')))))"

primrec draw_comp_incl_impl_int ::
  "nat \<Rightarrow> helpers \<Rightarrow> need \<Rightarrow> all_needs \<Rightarrow> registry \<Rightarrow> registry \<Rightarrow> bool
     \<Rightarrow> draw_result option" where
  "draw_comp_incl_impl_int 0 h n an proc_impl proc_used white_box_view = None"
| "draw_comp_incl_impl_int (Suc k) h n an proc_impl proc_used white_box_view =
     (case (if white_box_view
            then draw_sub_components (\<lambda>c. draw_comp_incl_impl_int k h c an)
                   (need_includes n @ need_consists_of n) an
                   (gen_struct_element h ''component'' n @ ''  {'' @ [NL], [], proc_impl, proc_used)
            else Some (gen_struct_element h ''component'' n @ ''  {'' @ [NL], [],
                       proc_impl, proc_used)) of
        None \<Rightarrow> None
      | Some (structure_text, linkage_text, proc_impl1, proc_used1) \<Rightarrow>
          (case process_interfaces h (get_interface_from_component h n ''implements'' an)
                  ''implements'' n an proc_impl1 linkage_text of
             (linkage_text2, proc_impl2) \<Rightarrow>
               (case process_interfaces h (get_interface_from_component h n ''uses'' an)
                       ''uses'' n an proc_used1 linkage_text2 of
                  (linkage_text3, proc_used2) \<Rightarrow>
                    Some (structure_text @ close_block n, linkage_text3, proc_impl2, proc_used2))))"

text \<open>
  The needs into which a white-box drawing of \<open>n\<close> descends again in white-box mode:
  the sub-components of \<open>n\<close> that are containers themselves. \<open>nesting_height_le an d n\<close>
  says that every chain of such steps that starts at \<open>n\<close> has at most \<open>d\<close> steps; it
  looks only at what can be reached from \<open>n\<close>. \<open>container_step\<close> is the same step as a
  relation.
\<close>

definition container_children :: "all_needs \<Rightarrow> need \<Rightarrow> need list" where
  "container_children an n =
     concat (map (\<lambda>c. case map_of an c of
                          None \<Rightarrow> []
                        | Some m \<Rightarrow>
                            (if need_type m \<in> {''comp'', ''comp_arc_sta''} \<and> need_consists_of m \<noteq> []
                             then [m] else []))
                 (need_includes n @ need_consists_of n))"

primrec nesting_height_le :: "all_needs \<Rightarrow> nat \<Rightarrow> need \<Rightarrow> bool" where
  "nesting_height_le an 0 n \<longleftrightarrow> container_children an n = []"
| "nesting_height_le an (Suc d) n \<longleftrightarrow>
     list_all (nesting_height_le an d) (container_children an n)"

definition container_step :: "all_needs \<Rightarrow> (need \<times> need) set" where
  "container_step an = {(n, m). m \<in> set (container_children an n)}"

text \<open>
  Two components that contain each other, and a container A that holds a container B
  that holds a leaf C.
\<close>

definition comp_need :: "string \<Rightarrow> string list \<Rightarrow> need" where
  "comp_need i parts =
     \<lparr>need_id = i, need_type = ''comp'', need_title = i, need_includes = [],
      need_consists_of = parts, need_implements = [], need_uses = []\<rparr>"

definition cyclic_needs :: all_needs where
  "cyclic_needs = [(''A'', comp_need ''A'' [''B'']), (''B'', comp_need ''B'' [''A''])]"

definition nested_needs :: all_needs where
  "nested_needs =
     [(''A'', comp_need ''A'' [''B'']), (''B'', comp_need ''B'' [''C'']),
      (''C'', comp_need ''C'' [])]"

subsection \<open>The feature closure of \<^verbatim>\<open>draw_full_feature\<close>\<close>

text \<open>\<^verbatim>\<open>str.startswith\<close>, and the test for an external base library component.\<close>

definition startswith :: "string \<Rightarrow> string \<Rightarrow> bool" where
  "startswith s p \<longleftrightarrow> take (length p) s = p"

definition is_external_baselib :: "string \<Rightarrow> bool" where
  "is_external_baselib comp_id \<longleftrightarrow>
     startswith comp_id ''comp__baselibs_'' \<or> startswith comp_id ''comp__os_''"

text \<open>
  The secondary components of \<^verbatim>\<open>_collect_interfaces_and_modules\<close>. The innermost loop,
  \<^verbatim>\<open>for used_iface in used_ifaces\<close>, appends to \<^verbatim>\<open>interfaces_to_process\<close> and adds to
  \<^verbatim>\<open>all_related_interfaces\<close>.
\<close>

fun enqueue_used_interfaces ::
  "string list \<Rightarrow> string list \<Rightarrow> string list \<Rightarrow> string list \<times> string list
     \<Rightarrow> string list \<times> string list" where
  "enqueue_used_interfaces [] visited_interfaces primary_interfaces acc = acc"
| "enqueue_used_interfaces (used_iface # rest) visited_interfaces primary_interfaces acc =
     (case acc of (interfaces_to_process, all_related_interfaces) \<Rightarrow>
        (if used_iface \<notin> set visited_interfaces \<and> used_iface \<notin> set primary_interfaces
         then enqueue_used_interfaces rest visited_interfaces primary_interfaces
                (interfaces_to_process @ [used_iface], set_add all_related_interfaces used_iface)
         else enqueue_used_interfaces rest visited_interfaces primary_interfaces acc))"

text \<open>
  The loop \<^verbatim>\<open>for comp_id in impl_comps\<close>. The state is
  \<^verbatim>\<open>secondary_components\<close>, \<^verbatim>\<open>interfaces_to_process\<close> and \<^verbatim>\<open>all_related_interfaces\<close>.
\<close>

fun add_secondary_components ::
  "helpers \<Rightarrow> all_needs \<Rightarrow> string list \<Rightarrow> string list \<Rightarrow> string list \<Rightarrow> string list
     \<Rightarrow> string list \<times> string list \<times> string list
     \<Rightarrow> string list \<times> string list \<times> string list" where
  "add_secondary_components h an primary_components primary_interfaces visited_interfaces [] acc = acc"
| "add_secondary_components h an primary_components primary_interfaces visited_interfaces
     (comp_id # rest) acc =
     (case acc of (secondary_components, interfaces_to_process, all_related_interfaces) \<Rightarrow>
        (case map_of an comp_id of
           None \<Rightarrow>
             add_secondary_components h an primary_components primary_interfaces
               visited_interfaces rest acc
         | Some component \<Rightarrow>
             (if comp_id \<in> set primary_components
              then add_secondary_components h an primary_components primary_interfaces
                     visited_interfaces rest acc
              else if \<not> is_external_baselib comp_id
              then (case enqueue_used_interfaces (get_interface_from_component h component ''uses'' an)
                           visited_interfaces primary_interfaces
                           (interfaces_to_process, all_related_interfaces) of
                      (interfaces_to_process', all_related_interfaces') \<Rightarrow>
                        add_secondary_components h an primary_components primary_interfaces
                          visited_interfaces rest
                          (set_add secondary_components comp_id, interfaces_to_process',
                           all_related_interfaces'))
              else add_secondary_components h an primary_components primary_interfaces
                     visited_interfaces rest
                     (set_add secondary_components comp_id, interfaces_to_process,
                      all_related_interfaces))))"

text \<open>
  The loop \<^verbatim>\<open>while interfaces_to_process\<close>. It returns \<^verbatim>\<open>visited_interfaces\<close>,
  \<^verbatim>\<open>secondary_components\<close> and \<^verbatim>\<open>all_related_interfaces\<close>. Every round either shortens
  the queue or marks a further key of \<^verbatim>\<open>all_needs\<close> as visited.
\<close>

function secondary_loop ::
  "helpers \<Rightarrow> all_needs \<Rightarrow> string list \<Rightarrow> string list
     \<Rightarrow> string list \<Rightarrow> string list \<Rightarrow> string list \<Rightarrow> string list
     \<Rightarrow> string list \<times> string list \<times> string list" where
  "secondary_loop h an primary_components primary_interfaces
     [] visited_interfaces secondary_components all_related_interfaces =
     (visited_interfaces, secondary_components, all_related_interfaces)"
| "secondary_loop h an primary_components primary_interfaces
     (iface # interfaces_to_process) visited_interfaces secondary_components
     all_related_interfaces =
     (if iface \<in> set visited_interfaces \<or> map_of an iface = None
      then secondary_loop h an primary_components primary_interfaces interfaces_to_process
             visited_interfaces secondary_components all_related_interfaces
      else secondary_loop h an primary_components primary_interfaces
             (fst (snd (add_secondary_components h an primary_components primary_interfaces
                          (set_add visited_interfaces iface)
                          (get_impl_comp_from_logic_iface h iface an)
                          (secondary_components, interfaces_to_process, all_related_interfaces))))
             (set_add visited_interfaces iface)
             (fst (add_secondary_components h an primary_components primary_interfaces
                     (set_add visited_interfaces iface)
                     (get_impl_comp_from_logic_iface h iface an)
                     (secondary_components, interfaces_to_process, all_related_interfaces)))
             (snd (snd (add_secondary_components h an primary_components primary_interfaces
                          (set_add visited_interfaces iface)
                          (get_impl_comp_from_logic_iface h iface an)
                          (secondary_components, interfaces_to_process, all_related_interfaces)))))"
  by pat_completeness auto
termination
proof (relation "inv_image (less_than <*lex*> less_than)
    (\<lambda>(h, an, pc, pi, q, v, s, r). (card (fst ` set an - set v), length q))")
  show "wf (inv_image (less_than <*lex*> less_than)
    (\<lambda>(h, an, pc, pi, q, v, s, r).
       (card (fst ` set an - set v), length (q :: string list))))"
    by (intro wf_inv_image wf_lex_prod wf_less_than)
next
  fix h :: helpers and an :: all_needs and pc pi :: "string list" and iface :: string
    and q v s r :: "string list"
  assume "iface \<in> set v \<or> map_of an iface = None"
  show "((h, an, pc, pi, q, v, s, r), (h, an, pc, pi, iface # q, v, s, r))
          \<in> inv_image (less_than <*lex*> less_than)
              (\<lambda>(h, an, pc, pi, q, v, s, r). (card (fst ` set an - set v), length q))"
    by simp
next
  fix h :: helpers and an :: all_needs and pc pi :: "string list" and iface :: string
    and q v s r :: "string list"
  assume "\<not> (iface \<in> set v \<or> map_of an iface = None)"
  then have nv: "iface \<notin> set v" and "map_of an iface \<noteq> None" by blast+
  then have k: "iface \<in> fst ` set an" by (simp add: map_of_eq_None_iff)
  have "fst ` set an - set (set_add v iface) \<subset> fst ` set an - set v"
    using nv k by (auto simp: set_add_def)
  then have "card (fst ` set an - set (set_add v iface)) < card (fst ` set an - set v)"
    by (intro psubset_card_mono) simp_all
  then show "((h, an, pc, pi,
      fst (snd (add_secondary_components h an pc pi (set_add v iface)
                  (get_impl_comp_from_logic_iface h iface an) (s, q, r))),
      set_add v iface,
      fst (add_secondary_components h an pc pi (set_add v iface)
             (get_impl_comp_from_logic_iface h iface an) (s, q, r)),
      snd (snd (add_secondary_components h an pc pi (set_add v iface)
                  (get_impl_comp_from_logic_iface h iface an) (s, q, r)))),
     (h, an, pc, pi, iface # q, v, s, r))
          \<in> inv_image (less_than <*lex*> less_than)
              (\<lambda>(h, an, pc, pi, q, v, s, r). (card (fst ` set an - set v), length q))"
    by simp
qed

declare secondary_loop.simps [simp del]

text \<open>
  The interfaces that the component of a given id uses, as the loop reads them:
  \<^verbatim>\<open>get_interface_from_component(all_needs[comp_id], "uses", all_needs)\<close>.
\<close>

definition uses_of :: "helpers \<Rightarrow> all_needs \<Rightarrow> string \<Rightarrow> string list" where
  "uses_of h an comp_id =
     (case map_of an comp_id of
        None \<Rightarrow> []
      | Some component \<Rightarrow> get_interface_from_component h component ''uses'' an)"

text \<open>
  The start of \<^verbatim>\<open>_collect_interfaces_and_modules\<close>, up to the end of the
  \<^verbatim>\<open>while\<close> loop: the interfaces used by the primary components, and the closure
  computed from them. \<^verbatim>\<open>secondary_closure\<close> returns \<^verbatim>\<open>visited_interfaces\<close>,
  \<^verbatim>\<open>secondary_components\<close> and \<^verbatim>\<open>all_related_interfaces\<close>.
\<close>

definition secondary_interfaces :: "helpers \<Rightarrow> all_needs \<Rightarrow> string list \<Rightarrow> string list" where
  "secondary_interfaces h an primary_components =
     foldl (\<lambda>acc comp_id. set_update acc (uses_of h an comp_id)) [] primary_components"

definition secondary_closure ::
  "helpers \<Rightarrow> need \<Rightarrow> all_needs \<Rightarrow> string list
     \<Rightarrow> string list \<times> string list \<times> string list" where
  "secondary_closure h n an interfacelist =
     (let primary_components = remdups (need_consists_of n);
          primary_interfaces = remdups interfacelist;
          secondary = secondary_interfaces h an primary_components
      in secondary_loop h an primary_components primary_interfaces secondary [] []
           (set_update primary_interfaces secondary))"

subsection \<open>The imported helper functions\<close>

text \<open>
  Modelled from the spec: the relation extractor of section 4.1, which the sources
  import as \<^verbatim>\<open>get_interface_from_component\<close> from the missing module
  \<^verbatim>\<open>score_draw_uml_funcs.helpers\<close>. It yields the interface ids that the relation leads
  to, from the component itself and from its immediate sub-elements, without the ids
  that are absent from the graph.
\<close>

definition relation_field :: "string \<Rightarrow> need \<Rightarrow> string list" where
  "relation_field relation n =
     (if relation = ''implements'' then need_implements n
      else if relation = ''uses'' then need_uses n
      else [])"

definition relations_of :: "need \<Rightarrow> string \<Rightarrow> all_needs \<Rightarrow> string list" where
  "relations_of n relation an =
     filter (\<lambda>i. map_of an i \<noteq> None)
       (relation_field relation n
        @ concat (map (\<lambda>c. case map_of an c of
                               None \<Rightarrow> []
                             | Some m \<Rightarrow> relation_field relation m)
                      (need_includes n @ need_consists_of n)))"

text \<open>
  Modelled from the spec: \<^verbatim>\<open>module_of\<close> of section 4.1 (\<^verbatim>\<open>get_module\<close> of the missing
  helpers), the first module of the graph that includes the component, or the empty
  string.
\<close>

definition module_of :: "string \<Rightarrow> all_needs \<Rightarrow> string" where
  "module_of comp_id an =
     (case filter (\<lambda>(k, m). need_type m = ''mod'' \<and> comp_id \<in> set (need_includes m)) an of
        [] \<Rightarrow> []
      | (k, m) # _ \<Rightarrow> k)"

text \<open>
  Modelled from the spec: the components that implement an interface, found through
  the relation extractor (\<^verbatim>\<open>get_impl_comp_from_logic_iface\<close> of the missing helpers),
  in the order of the graph.
\<close>

definition implementers_of :: "string \<Rightarrow> all_needs \<Rightarrow> string list" where
  "implementers_of iface an =
     map fst (filter (\<lambda>(k, m). need_type m \<in> {''comp'', ''comp_arc_sta''}
                               \<and> iface \<in> set (relations_of m ''implements'' an)) an)"

text \<open>
  Modelled from the spec: the resolution of an interface-operation id to its owning
  interface (\<^verbatim>\<open>get_interface_from_int\<close> of the missing helpers). The owner is the first
  interface of the graph that includes the id; any other id stands for itself.
\<close>

definition interface_of :: "string \<Rightarrow> all_needs \<Rightarrow> string" where
  "interface_of i an =
     (case filter (\<lambda>(k, m). need_type m = ''interface'' \<and> i \<in> set (need_includes m)) an of
        [] \<Rightarrow> i
      | (k, m) # _ \<Rightarrow> k)"

text \<open>
  Modelled from the spec: the output forms of section 6 (\<^verbatim>\<open>gen_struct_element\<close>,
  \<^verbatim>\<open>gen_interface_element\<close>, \<^verbatim>\<open>gen_link_text\<close>, \<^verbatim>\<open>get_alias\<close>, \<^verbatim>\<open>get_hierarchy_text\<close> and
  \<^verbatim>\<open>gen_header\<close> of the missing helpers). A block opens with the kind, the title in
  double quotes and the alias; an edge is one line of alias, arrow, alias and label;
  the alias of a need is its id; the host supplies the header, which is empty here.
\<close>

definition struct_element :: "string \<Rightarrow> need \<Rightarrow> string" where
  "struct_element kind_name n =
     kind_name @ '' '' @ [DQ] @ need_title n @ [DQ] @ '' as '' @ need_id n"

definition interface_element :: "string \<Rightarrow> all_needs \<Rightarrow> bool \<Rightarrow> string" where
  "interface_element iface an include_ops =
     (case map_of an iface of
        None \<Rightarrow> []
      | Some n \<Rightarrow> struct_element ''interface'' n @ '' {'' @ [NL] @ ''}'' @ [NL])"

definition edge_text :: "need \<Rightarrow> string \<Rightarrow> need \<Rightarrow> string \<Rightarrow> string" where
  "edge_text a arrow b lbl = need_id a @ '' '' @ arrow @ '' '' @ need_id b @ '' : '' @ lbl"

definition hierarchy_text :: "string \<Rightarrow> all_needs \<Rightarrow> string \<times> string \<times> string \<times> string" where
  "hierarchy_text comp_id an =
     (case map_of an comp_id of
        None \<Rightarrow> ([], [], [], [])
      | Some n \<Rightarrow>
          (struct_element ''component'' n @ '' {'' @ [NL], ''}'' @ [NL],
           (case map_of an (module_of comp_id an) of
              None \<Rightarrow> []
            | Some m \<Rightarrow> struct_element ''package'' m @ '' {'' @ [NL]),
           (case map_of an (module_of comp_id an) of
              None \<Rightarrow> []
            | Some m \<Rightarrow> ''}'' @ [NL])))"

definition spec_helpers :: helpers where
  "spec_helpers =
     \<lparr>gen_header = [],
      gen_interface_element = interface_element,
      gen_link_text = edge_text,
      gen_struct_element = struct_element,
      get_alias = need_id,
      get_hierarchy_text = hierarchy_text,
      get_impl_comp_from_logic_iface = implementers_of,
      get_interface_from_component = relations_of,
      get_interface_from_int = interface_of,
      get_module = module_of\<rparr>"

text \<open>
  A feature whose primary component C1 uses the interface I2. The component C2
  implements I2 and uses I3; I3 is implemented by a component of an external base
  library, which itself uses I4.
\<close>

definition mk_need ::
  "string \<Rightarrow> string \<Rightarrow> string list \<Rightarrow> string list \<Rightarrow> string list \<Rightarrow> string list \<Rightarrow> need" where
  "mk_need i t incl parts impl used =
     \<lparr>need_id = i, need_type = t, need_title = i, need_includes = incl,
      need_consists_of = parts, need_implements = impl, need_uses = used\<rparr>"

definition baselib_feature :: need where
  "baselib_feature = mk_need ''F'' ''feat'' [] [''C1''] [] []"

definition baselib_needs :: all_needs where
  "baselib_needs =
     [(''F'', baselib_feature),
      (''C1'', mk_need ''C1'' ''comp'' [] [] [] [''I2'']),
      (''I2'', mk_need ''I2'' ''interface'' [] [] [] []),
      (''C2'', mk_need ''C2'' ''comp'' [] [] [''I2''] [''I3'']),
      (''I3'', mk_need ''I3'' ''interface'' [] [] [] []),
      (''comp__baselibs_x'', mk_need ''comp__baselibs_x'' ''comp'' [] [] [''I3''] [''I4'']),
      (''I4'', mk_need ''I4'' ''interface'' [] [] [] [])]"

subsection \<open>Drawing a module\<close>

text \<open>
  \<^verbatim>\<open>draw_impl_interface\<close> collects the implemented interfaces of a need and of everything
  below it into one set. It calls itself for every sub-element that is present, of
  whatever type, again with no record of the needs it has entered; the fuel bounds
  the depth. \<^verbatim>\<open>draw_impl_sub_elements\<close> is its loop.
\<close>

fun draw_impl_sub_elements ::
  "(need \<Rightarrow> string list \<Rightarrow> string list option) \<Rightarrow> string list \<Rightarrow> all_needs \<Rightarrow> string list
     \<Rightarrow> string list option" where
  "draw_impl_sub_elements rec [] an local_impl_interfaces = Some local_impl_interfaces"
| "draw_impl_sub_elements rec (need_inc # rest) an local_impl_interfaces =
     (case map_of an need_inc of
        None \<Rightarrow> draw_impl_sub_elements rec rest an local_impl_interfaces
      | Some curr_need \<Rightarrow>
          (case rec curr_need local_impl_interfaces of
             None \<Rightarrow> None
           | Some local_impl_interfaces' \<Rightarrow>
               draw_impl_sub_elements rec rest an local_impl_interfaces'))"

primrec draw_impl_interface ::
  "nat \<Rightarrow> helpers \<Rightarrow> need \<Rightarrow> all_needs \<Rightarrow> string list \<Rightarrow> string list option" where
  "draw_impl_interface 0 h n an local_impl_interfaces = None"
| "draw_impl_interface (Suc k) h n an local_impl_interfaces =
     (case draw_impl_sub_elements (\<lambda>c. draw_impl_interface k h c an)
             (need_includes n @ need_consists_of n) an local_impl_interfaces of
        None \<Rightarrow> None
      | Some local_impl_interfaces' \<Rightarrow>
          Some (set_update local_impl_interfaces'
                  (get_interface_from_component h n ''implements'' an)))"

text \<open>
  \<^verbatim>\<open>_process_impl_interfaces\<close>: the loop over the collected interfaces, then the function.
  It returns the structure text and the registry of implemented interfaces, which
  it updates.
\<close>

fun process_impl_loop ::
  "helpers \<Rightarrow> need \<Rightarrow> all_needs \<Rightarrow> string list \<Rightarrow> registry \<Rightarrow> string \<Rightarrow> string \<times> registry" where
  "process_impl_loop h n an [] proc_impl structure_text = (structure_text, proc_impl)"
| "process_impl_loop h n an (iface # rest) proc_impl structure_text =
     (if map_of an iface = None then process_impl_loop h n an rest proc_impl structure_text
      else if get_list proc_impl iface = []
      then process_impl_loop h n an rest (AList.update iface [need_id n] proc_impl)
             (structure_text @ gen_interface_element h iface an True)
      else process_impl_loop h n an rest proc_impl structure_text)"

definition process_impl_interfaces ::
  "nat \<Rightarrow> helpers \<Rightarrow> need \<Rightarrow> all_needs \<Rightarrow> registry \<Rightarrow> string \<Rightarrow> (string \<times> registry) option" where
  "process_impl_interfaces k h n an proc_impl structure_text =
     (case draw_impl_interface k h n an [] of
        None \<Rightarrow> None
      | Some local_impl_interfaces \<Rightarrow>
          Some (process_impl_loop h n an local_impl_interfaces proc_impl structure_text))"

text \<open>
  \<^verbatim>\<open>_process_used_interfaces\<close>. \<^verbatim>\<open>all_needs[comp]\<close> and \<^verbatim>\<open>all_needs[iface]\<close> raise a
  \<^verbatim>\<open>KeyError\<close> for a missing key; the error carries the key. \<^verbatim>\<open>uses_links\<close> is the loop
  \<^verbatim>\<open>for comp in comps\<close>, \<^verbatim>\<open>process_used_loop\<close> the loop over the items of the registry
  of used interfaces. An interface counts as drawn only when the registry of
  implemented interfaces holds a non-empty list for it.
\<close>

fun uses_links ::
  "helpers \<Rightarrow> all_needs \<Rightarrow> string \<Rightarrow> string list \<Rightarrow> string \<Rightarrow> error + string" where
  "uses_links h an iface [] linkage_text = Inr linkage_text"
| "uses_links h an iface (comp_id # rest) linkage_text =
     (case map_of an comp_id of
        None \<Rightarrow> Inl (KeyError comp_id)
      | Some user_need \<Rightarrow>
          (case map_of an iface of
             None \<Rightarrow> Inl (KeyError iface)
           | Some iface_need \<Rightarrow>
               uses_links h an iface rest
                 (linkage_text @ gen_link_text h user_need ''-d[#green]->'' iface_need ''uses''
                    @ '' '' @ [NL])))"

fun process_used_loop ::
  "helpers \<Rightarrow> all_needs \<Rightarrow> string list \<Rightarrow> (string \<times> string list) list
     \<Rightarrow> registry \<Rightarrow> string \<Rightarrow> string \<Rightarrow> error + string \<times> string \<times> registry" where
  "process_used_loop h an local_impl_interfaces [] proc_impl structure_text linkage_text =
     Inr (structure_text, linkage_text, proc_impl)"
| "process_used_loop h an local_impl_interfaces ((iface, comps) # rest) proc_impl
     structure_text linkage_text =
     (case (if map_of proc_impl iface \<noteq> None \<and> 0 < length (get_list proc_impl iface)
            then Inr (structure_text, linkage_text, proc_impl)
            else (case get_impl_comp_from_logic_iface h iface an of
                    [] \<Rightarrow>
                      Inr (structure_text @ gen_interface_element h iface an True, linkage_text,
                           AList.update iface [] proc_impl)
                  | impl_comp_id # _ \<Rightarrow>
                      (case map_of an impl_comp_id of
                         None \<Rightarrow>
                           Inr (structure_text @ gen_interface_element h iface an True,
                                linkage_text, AList.update iface [] proc_impl)
                       | Some impl_comp \<Rightarrow>
                           (case get_hierarchy_text h impl_comp_id an of
                              (rest_open, rest_close, module_open, module_close) \<Rightarrow>
                                (case map_of an iface of
                                   None \<Rightarrow> Inl (KeyError iface)
                                 | Some iface_need \<Rightarrow>
                                     Inr (structure_text @ module_open @ rest_open @ rest_close
                                            @ module_close
                                            @ (if iface \<notin> set local_impl_interfaces
                                               then gen_interface_element h iface an True
                                               else []),
                                          linkage_text
                                            @ gen_link_text h impl_comp ''-u->'' iface_need
                                                ''implements''
                                            @ '' '' @ [NL],
                                          if iface \<notin> set local_impl_interfaces
                                          then AList.update iface [impl_comp_id] proc_impl
                                          else proc_impl)))))) of
        Inl e \<Rightarrow> Inl e
      | Inr (structure_text', linkage_text', proc_impl') \<Rightarrow>
          (case uses_links h an iface comps linkage_text' of
             Inl e \<Rightarrow> Inl e
           | Inr linkage_text'' \<Rightarrow>
               process_used_loop h an local_impl_interfaces rest proc_impl' structure_text'
                 linkage_text''))"

definition process_used_interfaces ::
  "helpers \<Rightarrow> need \<Rightarrow> all_needs \<Rightarrow> registry \<Rightarrow> registry \<Rightarrow> string list \<Rightarrow> string \<Rightarrow> string
     \<Rightarrow> error + string \<times> string \<times> registry" where
  "process_used_interfaces h n an proc_impl proc_used local_impl_interfaces structure_text
     linkage_text =
     process_used_loop h an local_impl_interfaces proc_used proc_impl structure_text linkage_text"

text \<open>
  \<^verbatim>\<open>str.split("\n")\<close>, and the removal of repeated lines,
  \<^verbatim>\<open>"\n".join(set(text.split("\n"))) + "\n"\<close>. Python leaves the order of the lines of
  the result open; the model keeps the order of the first occurrences.
\<close>

fun split_on :: "char \<Rightarrow> string \<Rightarrow> string list" where
  "split_on sep [] = [[]]"
| "split_on sep (c # cs) =
     (if c = sep then [] # split_on sep cs
      else (case split_on sep cs of
              [] \<Rightarrow> [[c]]
            | l # ls \<Rightarrow> (c # l) # ls))"

definition remove_duplicate_links :: "string \<Rightarrow> string" where
  "remove_duplicate_links text = join [NL] (set_update [] (split_on NL text)) @ [NL]"

text \<open>
  \<^verbatim>\<open>draw_module\<close>. \<^verbatim>\<open>draw_included_components\<close> is its loop over the \<^verbatim>\<open>includes\<close> of the
  module. The result is \<open>None\<close> when the depth did not suffice, an error when a
  \<^verbatim>\<open>KeyError\<close> was raised, and otherwise the structure text, the linkage text and the
  two registries.
\<close>

fun draw_included_components ::
  "(need \<Rightarrow> registry \<Rightarrow> registry \<Rightarrow> bool \<Rightarrow> draw_result option)
     \<Rightarrow> string list \<Rightarrow> all_needs \<Rightarrow> draw_result \<Rightarrow> draw_result option" where
  "draw_included_components rec [] an acc = Some acc"
| "draw_included_components rec (need_inc # rest) an acc =
     (case map_of an need_inc of
        None \<Rightarrow> draw_included_components rec rest an acc
      | Some curr_need \<Rightarrow>
          (if need_type curr_need \<notin> {''comp'', ''mod''}
           then draw_included_components rec rest an acc
           else (case acc of (structure_text, linkage_text, proc_impl, proc_used) \<Rightarrow>
                  (case rec curr_need proc_impl proc_used (need_consists_of curr_need \<noteq> []) of
                     None \<Rightarrow> None
                   | Some (sub_structure, sub_linkage, proc_impl', proc_used') \<Rightarrow>
                       draw_included_components rec rest an
                         (structure_text @ sub_structure, linkage_text @ sub_linkage,
                          proc_impl', proc_used')))))"

definition draw_module ::
  "nat \<Rightarrow> helpers \<Rightarrow> need \<Rightarrow> all_needs \<Rightarrow> registry \<Rightarrow> registry
     \<Rightarrow> (error + draw_result) option" where
  "draw_module k h n an proc_impl proc_used =
     (case draw_impl_interface k h n an [] of
        None \<Rightarrow> None
      | Some local_impl_interfaces \<Rightarrow>
          (case process_impl_interfaces k h n an proc_impl [] of
             None \<Rightarrow> None
           | Some (structure_text, proc_impl1) \<Rightarrow>
               (case draw_included_components (\<lambda>c. draw_comp_incl_impl_int k h c an)
                       (need_includes n) an
                       (structure_text @ gen_struct_element h ''package'' n @ ''  {'' @ [NL], [],
                        proc_impl1, proc_used) of
                  None \<Rightarrow> None
                | Some (structure_text2, linkage_text2, proc_impl2, proc_used2) \<Rightarrow>
                    (case process_used_interfaces h n an proc_impl2 proc_used2
                            local_impl_interfaces (structure_text2 @ close_block n)
                            linkage_text2 of
                       Inl e \<Rightarrow> Some (Inl e)
                     | Inr (structure_text3, linkage_text3, proc_impl3) \<Rightarrow>
                         Some (Inr (structure_text3, remove_duplicate_links linkage_text3,
                                    proc_impl3, proc_used2))))))"

text \<open>
  A module M that includes the component C; C uses the interface I, which no
  component implements.
\<close>

definition lone_module :: need where
  "lone_module = mk_need ''M'' ''mod'' [''C''] [] [] []"

definition lone_needs :: all_needs where
  "lone_needs =
     [(''M'', lone_module),
      (''C'', mk_need ''C'' ''comp'' [] [] [] [''I'']),
      (''I'', mk_need ''I'' ''interface'' [] [] [] [])]"

subsection \<open>The rest of the feature closure, and the links of a feature\<close>

text \<open>
  The components that implement a primary interface and are neither primary nor
  external; the modules of the related components; the components that these modules
  include and that are not primary.
\<close>

definition primary_interface_implementers ::
  "helpers \<Rightarrow> all_needs \<Rightarrow> string list \<Rightarrow> string list \<Rightarrow> string list" where
  "primary_interface_implementers h an primary_components primary_interfaces =
     foldl (\<lambda>acc iface.
              if map_of an iface = None then acc
              else foldl (\<lambda>acc comp_id.
                            if comp_id \<notin> set primary_components \<and> \<not> is_external_baselib comp_id
                            then set_add acc comp_id else acc)
                     acc (get_impl_comp_from_logic_iface h iface an))
       [] primary_interfaces"

definition modules_to_draw :: "helpers \<Rightarrow> all_needs \<Rightarrow> string list \<Rightarrow> string list" where
  "modules_to_draw h an all_related_components =
     foldl (\<lambda>acc comp_id.
              if \<not> is_external_baselib comp_id \<and> get_module h comp_id an \<noteq> []
              then set_add acc (get_module h comp_id an) else acc)
       [] all_related_components"

definition components_in_modules_only ::
  "all_needs \<Rightarrow> string list \<Rightarrow> string list \<Rightarrow> string list" where
  "components_in_modules_only an primary_components modules =
     foldl (\<lambda>acc module_id.
              case map_of an module_id of
                None \<Rightarrow> acc
              | Some module_need \<Rightarrow>
                  foldl (\<lambda>acc comp_id.
                           if comp_id \<notin> set primary_components then set_add acc comp_id else acc)
                    acc (need_includes module_need))
       [] modules"

text \<open>
  The loop that draws the collected modules; \<^verbatim>\<open>all_needs[module]\<close> raises for a module
  that is not in the graph. The link text of a module replaces the link text so far.
\<close>

type_synonym collect_state = "string \<times> string \<times> registry \<times> registry \<times> string list"

fun draw_modules ::
  "nat \<Rightarrow> helpers \<Rightarrow> all_needs \<Rightarrow> string list \<Rightarrow> collect_state
     \<Rightarrow> (error + collect_state) option" where
  "draw_modules k h an [] acc = Some (Inr acc)"
| "draw_modules k h an (module_id # rest) acc =
     (case acc of (structure_text, link_text, proc_impl, proc_used, proc_modules) \<Rightarrow>
        (if module_id \<in> set proc_modules then draw_modules k h an rest acc
         else (case map_of an module_id of
                 None \<Rightarrow> Some (Inl (KeyError module_id))
               | Some module_need \<Rightarrow>
                   (case draw_module k h module_need an proc_impl proc_used of
                      None \<Rightarrow> None
                    | Some (Inl e) \<Rightarrow> Some (Inl e)
                    | Some (Inr (tmp, link_text', proc_impl', proc_used')) \<Rightarrow>
                        draw_modules k h an rest
                          (structure_text @ tmp, link_text', proc_impl', proc_used',
                           proc_modules @ [module_id])))))"

text \<open>
  The loop that fills \<^verbatim>\<open>impl_comp\<close>: an interface gets an entry only when it is in the
  graph and the list of its eligible implementing components is not empty.
\<close>

fun update_impl_comp ::
  "helpers \<Rightarrow> all_needs \<Rightarrow> string list \<Rightarrow> string list \<Rightarrow> string list \<Rightarrow> registry
     \<Rightarrow> registry" where
  "update_impl_comp h an all_related_components in_modules_only [] impl_comp = impl_comp"
| "update_impl_comp h an all_related_components in_modules_only (iface # rest) impl_comp =
     (if map_of an iface = None
      then update_impl_comp h an all_related_components in_modules_only rest impl_comp
      else if get_impl_comp_from_logic_iface h iface an \<noteq> []
              \<and> filter (\<lambda>c. c \<in> set all_related_components \<and> c \<notin> set in_modules_only)
                   (get_impl_comp_from_logic_iface h iface an) \<noteq> []
      then update_impl_comp h an all_related_components in_modules_only rest
             (AList.update iface
                (filter (\<lambda>c. c \<in> set all_related_components \<and> c \<notin> set in_modules_only)
                   (get_impl_comp_from_logic_iface h iface an))
                impl_comp)
      else update_impl_comp h an all_related_components in_modules_only rest impl_comp)"

text \<open>
  \<^verbatim>\<open>_collect_interfaces_and_modules\<close>. It returns the structure text, the link text, the
  two registries, \<^verbatim>\<open>impl_comp\<close> and \<^verbatim>\<open>proc_modules\<close>.
\<close>

definition collect_interfaces_and_modules ::
  "nat \<Rightarrow> helpers \<Rightarrow> need \<Rightarrow> all_needs \<Rightarrow> string list \<Rightarrow> registry \<Rightarrow> string list
     \<Rightarrow> registry \<Rightarrow> registry \<Rightarrow> string \<Rightarrow> string
     \<Rightarrow> (error + string \<times> string \<times> registry \<times> registry \<times> registry \<times> string list) option" where
  "collect_interfaces_and_modules k h n an interfacelist impl_comp proc_modules proc_impl
     proc_used structure_text link_text =
     (let primary_components = remdups (need_consists_of n);
          primary_interfaces = remdups interfacelist;
          implementers = primary_interface_implementers h an primary_components
                           primary_interfaces;
          all_related_interfaces = snd (snd (secondary_closure h n an interfacelist));
          secondary_components = fst (snd (secondary_closure h n an interfacelist));
          all_related_components =
            set_update (set_update primary_components secondary_components) implementers;
          modules = modules_to_draw h an all_related_components;
          in_modules_only = components_in_modules_only an primary_components modules
      in case draw_modules k h an modules
                (structure_text, link_text, proc_impl, proc_used, proc_modules) of
           None \<Rightarrow> None
         | Some (Inl e) \<Rightarrow> Some (Inl e)
         | Some (Inr (structure_text', link_text', proc_impl', proc_used', proc_modules')) \<Rightarrow>
             Some (Inr (structure_text', link_text', proc_impl', proc_used',
                        update_impl_comp h an all_related_components in_modules_only
                          all_related_interfaces impl_comp,
                        proc_modules')))"

text \<open>
  \<^verbatim>\<open>_build_links\<close>. \<^verbatim>\<open>implements_links\<close> is its inner loop \<^verbatim>\<open>for imcomp in impl_comps\<close>.
  The actor edge is written inside the test \<^verbatim>\<open>if impl_comps := impl_comp.get(iface)\<close>,
  for an interface of \<^verbatim>\<open>original_feature_interfaces\<close>.
\<close>

fun implements_links ::
  "helpers \<Rightarrow> all_needs \<Rightarrow> string \<Rightarrow> string list \<Rightarrow> string \<Rightarrow> error + string" where
  "implements_links h an iface [] link_text = Inr link_text"
| "implements_links h an iface (imcomp # rest) link_text =
     (case map_of an imcomp of
        None \<Rightarrow> implements_links h an iface rest link_text
      | Some imcomp_need \<Rightarrow>
          (case map_of an iface of
             None \<Rightarrow> Inl (KeyError iface)
           | Some iface_need \<Rightarrow>
               implements_links h an iface rest
                 (link_text @ gen_link_text h imcomp_need ''-u->'' iface_need ''implements''
                    @ '' '' @ [NL])))"

fun build_links ::
  "helpers \<Rightarrow> need \<Rightarrow> all_needs \<Rightarrow> string list \<Rightarrow> string list \<Rightarrow> registry \<Rightarrow> string
     \<Rightarrow> error + string" where
  "build_links h n an original_feature_interfaces [] impl_comp link_text = Inr link_text"
| "build_links h n an original_feature_interfaces (iface # rest) impl_comp link_text =
     (if get_list impl_comp iface = []
      then build_links h n an original_feature_interfaces rest impl_comp link_text
      else (case (if iface \<in> set original_feature_interfaces
                  then (case map_of an iface of
                          None \<Rightarrow> Inl (KeyError iface)
                        | Some iface_need \<Rightarrow>
                            Inr (link_text @ gen_link_text h Feature_User ''-d->'' iface_need ''use''
                                   @ '' '' @ [NL]))
                  else Inr link_text) of
              Inl e \<Rightarrow> Inl e
            | Inr link_text1 \<Rightarrow>
                (case implements_links h an iface (get_list impl_comp iface) link_text1 of
                   Inl e \<Rightarrow> Inl e
                 | Inr link_text2 \<Rightarrow>
                     build_links h n an original_feature_interfaces rest impl_comp link_text2)))"

text \<open>
  The calls of \<^verbatim>\<open>gen_link_text\<close> that \<^verbatim>\<open>_build_links\<close> makes, in their order: the edge of
  the actor to an interface, and the edge of a component to an interface that it
  implements. Each link holds the ids and the needs that the call receives.
\<close>

datatype link = Actor_use string need | Implements string need string need

fun link_line :: "helpers \<Rightarrow> link \<Rightarrow> string" where
  "link_line h (Actor_use iface iface_need) =
     gen_link_text h Feature_User ''-d->'' iface_need ''use'' @ '' '' @ [NL]"
| "link_line h (Implements imcomp imcomp_need iface iface_need) =
     gen_link_text h imcomp_need ''-u->'' iface_need ''implements'' @ '' '' @ [NL]"

fun implements_trace :: "all_needs \<Rightarrow> string \<Rightarrow> string list \<Rightarrow> error + link list" where
  "implements_trace an iface [] = Inr []"
| "implements_trace an iface (imcomp # rest) =
     (case map_of an imcomp of
        None \<Rightarrow> implements_trace an iface rest
      | Some imcomp_need \<Rightarrow>
          (case map_of an iface of
             None \<Rightarrow> Inl (KeyError iface)
           | Some iface_need \<Rightarrow>
               (case implements_trace an iface rest of
                  Inl e \<Rightarrow> Inl e
                | Inr links \<Rightarrow> Inr (Implements imcomp imcomp_need iface iface_need # links))))"

fun build_links_trace ::
  "all_needs \<Rightarrow> string list \<Rightarrow> string list \<Rightarrow> registry \<Rightarrow> error + link list" where
  "build_links_trace an original_feature_interfaces [] impl_comp = Inr []"
| "build_links_trace an original_feature_interfaces (iface # rest) impl_comp =
     (if get_list impl_comp iface = []
      then build_links_trace an original_feature_interfaces rest impl_comp
      else (case (if iface \<in> set original_feature_interfaces
                  then (case map_of an iface of
                          None \<Rightarrow> Inl (KeyError iface)
                        | Some iface_need \<Rightarrow> Inr [Actor_use iface iface_need])
                  else Inr []) of
              Inl e \<Rightarrow> Inl e
            | Inr actor \<Rightarrow>
                (case implements_trace an iface (get_list impl_comp iface) of
                   Inl e \<Rightarrow> Inl e
                 | Inr links \<Rightarrow>
                     (case build_links_trace an original_feature_interfaces rest impl_comp of
                        Inl e \<Rightarrow> Inl e
                      | Inr others \<Rightarrow> Inr (actor @ links @ others)))))"

text \<open>
  \<^verbatim>\<open>draw_full_feature.__call__\<close>: the interfaces of the feature, the closure, the links,
  and the text. \<^verbatim>\<open>feature_interfaces\<close> is the list \<^verbatim>\<open>interfacelist\<close>, \<^verbatim>\<open>actor_line\<close> the first
  line of the structure text.
\<close>

definition feature_interfaces :: "helpers \<Rightarrow> need \<Rightarrow> all_needs \<Rightarrow> string list" where
  "feature_interfaces h n an =
     set_update [] (map (\<lambda>need_inc. get_interface_from_int h need_inc an) (need_includes n))"

definition actor_line :: "helpers \<Rightarrow> string" where
  "actor_line h =
     ''actor '' @ [DQ] @ ''Feature User'' @ [DQ] @ '' as '' @ get_alias h Feature_User
       @ '' '' @ [NL]"

definition draw_full_feature ::
  "nat \<Rightarrow> helpers \<Rightarrow> need \<Rightarrow> all_needs \<Rightarrow> (error + string) option" where
  "draw_full_feature k h n an =
     (case collect_interfaces_and_modules k h n an (feature_interfaces h n an) [] [] [] []
             (actor_line h) [] of
        None \<Rightarrow> None
      | Some (Inl e) \<Rightarrow> Some (Inl e)
      | Some (Inr (structure_text, link_text, proc_impl, proc_used, impl_comp, proc_modules)) \<Rightarrow>
          (case build_links h n an (feature_interfaces h n an) (map fst impl_comp) impl_comp
                  link_text of
             Inl e \<Rightarrow> Some (Inl e)
           | Inr link_text' \<Rightarrow>
               Some (Inr (gen_header h @ structure_text @ remove_duplicate_links link_text'))))"

text \<open>
  The scenario of the specification: the feature includes the interface I1 and
  consists of the component C1, which implements I1 and uses I2; the component C2
  implements I2. And a feature that includes an interface which no component
  implements.
\<close>

definition scenario_feature :: need where
  "scenario_feature = mk_need ''F'' ''feat'' [''I1''] [''C1''] [] []"

definition scenario_needs :: all_needs where
  "scenario_needs =
     [(''F'', scenario_feature),
      (''C1'', mk_need ''C1'' ''comp'' [] [] [''I1''] [''I2'']),
      (''C2'', mk_need ''C2'' ''comp'' [] [] [''I2''] []),
      (''I1'', mk_need ''I1'' ''interface'' [] [] [] []),
      (''I2'', mk_need ''I2'' ''interface'' [] [] [] [])]"

definition orphan_feature :: need where
  "orphan_feature = mk_need ''F'' ''feat'' [''I1''] [] [] []"

definition orphan_needs :: all_needs where
  "orphan_needs = [(''F'', orphan_feature), (''I1'', mk_need ''I1'' ''interface'' [] [] [] [])]"

section \<open>Properties of the class-diagram operations\<close>

lemma ensure_class_ok:
  assumes "name \<noteq> []"
  shows "\<exists>node. fst (ensure_class d name st) = Inr node
           \<and> map_of (classes (snd (ensure_class d name st))) name = Some node
           \<and> fst ` set (classes (snd (ensure_class d name st))) = insert name (fst ` set (classes d))
           \<and> relations (snd (ensure_class d name st)) = relations d"
  using assms
  by (auto simp: ensure_class_def Let_def update_conv' dom_update split: option.splits
           dest: map_of_SomeD intro: rev_image_eqI)

lemma ensure_class_raises:
  "(\<exists>e. fst (ensure_class d name st) = Inl e) \<longleftrightarrow> name = []"
  by (auto simp: ensure_class_def Let_def split: option.splits)

lemma ensure_class_error_unchanged:
  "fst (ensure_class d name st) = Inl e \<Longrightarrow> snd (ensure_class d name st) = d"
  by (auto simp: ensure_class_def Let_def split: option.splits if_splits)

lemma add_member_ok:
  assumes "c \<noteq> []" "m \<noteq> []"
  shows "fst (add_member d c m v h) = Inr ()
     \<and> fst ` set (classes (snd (add_member d c m v h))) = insert c (fst ` set (classes d))"
proof -
  obtain node where n: "fst (ensure_class d c None) = Inr node"
    and k: "fst ` set (classes (snd (ensure_class d c None))) = insert c (fst ` set (classes d))"
    using ensure_class_ok [OF assms(1), of d None] by blast
  obtain d' where d': "ensure_class d c None = (Inr node, d')"
    using n by (cases "ensure_class d c None") auto
  show ?thesis using assms k d'
    by (auto simp: add_member_def dom_update)
qed

lemma relate_ok:
  assumes "a \<noteq> []" "b \<noteq> []"
  shows "fst (relate d a b k l) = Inr ()
     \<and> fst ` set (classes (snd (relate d a b k l))) = insert a (insert b (fst ` set (classes d)))"
proof -
  obtain n1 where n1: "fst (ensure_class d a None) = Inr n1"
    and k1: "fst ` set (classes (snd (ensure_class d a None))) = insert a (fst ` set (classes d))"
    using ensure_class_ok [OF assms(1), of d None] by blast
  obtain d1 where d1: "ensure_class d a None = (Inr n1, d1)"
    using n1 by (cases "ensure_class d a None") auto
  obtain n2 where n2: "fst (ensure_class d1 b None) = Inr n2"
    and k2: "fst ` set (classes (snd (ensure_class d1 b None))) = insert b (fst ` set (classes d1))"
    using ensure_class_ok [OF assms(2), of d1 None] by blast
  obtain d2 where d2: "ensure_class d1 b None = (Inr n2, d2)"
    using n2 by (cases "ensure_class d1 b None") auto
  show ?thesis using assms k1 k2 d1 d2
    by (auto simp: relate_def)
qed

lemma add_member_raises:
  "(\<exists>e. fst (add_member d c m v h) = Inl e) \<longleftrightarrow> c = [] \<or> m = []"
proof (cases "c = [] \<or> m = []")
  case True
  then show ?thesis
    by (auto simp: add_member_def ensure_class_def)
next
  case False
  then show ?thesis using add_member_ok [of c m d v h] by auto
qed

lemma relate_raises:
  "(\<exists>e. fst (relate d s t k l) = Inl e) \<longleftrightarrow> s = [] \<or> t = []"
proof (cases "s = [] \<or> t = []")
  case True
  then show ?thesis by (auto simp: relate_def)
next
  case False
  then show ?thesis using relate_ok [of s t d k l] by auto
qed

lemma add_member_error_unchanged:
  "fst (add_member d c m v h) = Inl e \<Longrightarrow> snd (add_member d c m v h) = d"
  using ensure_class_error_unchanged [of d c None]
  by (auto simp: add_member_def split: prod.splits sum.splits if_splits)

lemma relate_error_unchanged:
  assumes "fst (relate d s t k l) = Inl e"
  shows "snd (relate d s t k l) = d"
proof (cases "s = [] \<or> t = []")
  case True
  then show ?thesis by (auto simp: relate_def)
next
  case False
  then show ?thesis using relate_ok [of s t d k l] assms by auto
qed

lemma dropWhile_all_iff:
  "(\<forall>c\<in>set (dropWhile P s). P c) \<longleftrightarrow> (\<forall>c\<in>set s. P c)"
  by (induction s) simp_all

lemma strip_underscores_Nil:
  "strip_underscores s = [] \<longleftrightarrow> (\<forall>c\<in>set s. c = CHR ''_'')"
  unfolding strip_underscores_def rev_is_Nil_conv dropWhile_eq_Nil_conv set_rev
  by (rule dropWhile_all_iff)

lemma sanitize_raises:
  "(\<exists>e. sanitize name = Inl e) \<longleftrightarrow> (\<forall>ch\<in>set name. \<not> (VALID_CHARS ch \<and> ch \<noteq> CHR ''_''))"
  by (auto simp: sanitize_def Let_def strip_underscores_Nil)

lemma create_alias_raises:
  "(\<exists>e. fst (create_alias am name) = Inl e) \<longleftrightarrow> (\<exists>e. sanitize name = Inl e)"
  by (auto simp: create_alias_def Let_def split: sum.splits)

text \<open>
  C7. After \<^verbatim>\<open>relate(a, b)\<close> with non-empty names both \<open>a\<close> and \<open>b\<close> are keys of
  \<^verbatim>\<open>diagram.classes\<close>, whatever the diagram held before; after
  \<^verbatim>\<open>add_member(c, m)\<close> with non-empty names \<open>c\<close> is a key. Neither call raises.
\<close>

theorem C7_auto_vivification:
  "(a \<noteq> [] \<and> b \<noteq> [] \<longrightarrow>
      fst (relate d a b k l) = Inr ()
      \<and> a \<in> fst ` set (classes (snd (relate d a b k l)))
      \<and> b \<in> fst ` set (classes (snd (relate d a b k l))))
   \<and> (c \<noteq> [] \<and> m \<noteq> [] \<longrightarrow>
      fst (add_member d' c m v h) = Inr ()
      \<and> c \<in> fst ` set (classes (snd (add_member d' c m v h))))"
  using relate_ok [of a b d k l] add_member_ok [of c m d' v h] by simp

theorem C7_auto_vivification_witness:
  "fst (relate empty_diagram ''A'' ''B'' ASSOCIATION None) = Inr ()
   \<and> ''A'' \<in> fst ` set (classes (snd (relate empty_diagram ''A'' ''B'' ASSOCIATION None)))
   \<and> ''B'' \<in> fst ` set (classes (snd (relate empty_diagram ''A'' ''B'' ASSOCIATION None)))
   \<and> fst (add_member empty_diagram ''C'' ''m'' PUBLIC None) = Inr ()
   \<and> ''C'' \<in> fst ` set (classes (snd (add_member empty_diagram ''C'' ''m'' PUBLIC None)))"
  using C7_auto_vivification [where a = "''A''" and b = "''B''" and d = empty_diagram
      and k = ASSOCIATION and l = None and c = "''C''" and m = "''m''" and d' = empty_diagram
      and v = PUBLIC and h = None]
  by simp

text \<open>
  C8, as amended. \<^verbatim>\<open>add_class\<close> raises exactly for an empty class name,
  \<^verbatim>\<open>add_member\<close> exactly for an empty class or member name, \<^verbatim>\<open>relate\<close> exactly for
  an empty endpoint; alias creation raises exactly when the name sanitizes to the empty
  string, which is when the name holds no letter and no digit (underscores are trimmed
  away, so a name of underscores only raises as well).
\<close>

theorem C8_validation_errors:
  "((\<exists>e. fst (add_class d n st) = Inl e) \<longleftrightarrow> n = [])
   \<and> ((\<exists>e. fst (add_member d c m v h) = Inl e) \<longleftrightarrow> c = [] \<or> m = [])
   \<and> ((\<exists>e. fst (relate d s t k l) = Inl e) \<longleftrightarrow> s = [] \<or> t = [])
   \<and> ((\<exists>e. fst (create_alias am name) = Inl e) \<longleftrightarrow> (\<exists>e. sanitize name = Inl e))
   \<and> ((\<exists>e. sanitize name = Inl e)
        \<longleftrightarrow> (\<forall>ch\<in>set name. \<not> (VALID_CHARS ch \<and> ch \<noteq> CHR ''_'')))"
  unfolding add_class_def
  using ensure_class_raises [of d n st] add_member_raises [of d c m v h]
    relate_raises [of d s t k l] create_alias_raises [of am name] sanitize_raises [of name]
  by blast

theorem C8_validation_errors_witness:
  "(\<exists>e. fst (add_class empty_diagram [] None) = Inl e)
   \<and> (\<exists>e. fst (add_member empty_diagram ''A'' [] PUBLIC None) = Inl e)
   \<and> (\<exists>e. fst (relate empty_diagram [] ''B'' ASSOCIATION None) = Inl e)
   \<and> (\<exists>e. fst (create_alias new_AliasMap ''. _'') = Inl e)
   \<and> (\<exists>e. sanitize ''. _'' = Inl e)"
  using C8_validation_errors [where d = empty_diagram and n = "[]" and st = None
      and c = "''A''" and m = "[]" and v = PUBLIC and h = None and s = "[]" and t = "''B''"
      and k = ASSOCIATION and l = None and am = new_AliasMap and name = "''. _''"]
  by (simp add: VALID_CHARS_def)

text \<open>
  The claim as stated glosses "sanitizes to the empty string" as "contains no letter,
  digit, or underscore". The name \<^verbatim>\<open>"_"\<close> contains an underscore and still raises.
\<close>

theorem C8_underscore_counterexample:
  "\<not> ((\<exists>e. fst (create_alias new_AliasMap ''_'') = Inl e)
        \<longleftrightarrow> \<not> (\<exists>ch. ch \<in> set ''_'' \<and> VALID_CHARS ch))"
  by (simp add: create_alias_def sanitize_def strip_underscores_def VALID_CHARS_def)

text \<open>
  C10. When \<^verbatim>\<open>add_member\<close> or \<^verbatim>\<open>relate\<close> raises, the diagram afterwards is the
  diagram before: no class node was created and no relation appended.
\<close>

theorem C10_error_atomicity:
  "(fst (add_member d c m v h) = Inl e \<longrightarrow> snd (add_member d c m v h) = d)
   \<and> (fst (relate d s t k l) = Inl e' \<longrightarrow> snd (relate d s t k l) = d)"
  using add_member_error_unchanged [of d c m v h e] relate_error_unchanged [of d s t k l e']
  by blast

theorem C10_error_atomicity_witness:
  "fst (add_member empty_diagram ''X'' [] PUBLIC None)
      = Inl (ValueError ''member name must not be empty'')
   \<and> snd (add_member empty_diagram ''X'' [] PUBLIC None) = empty_diagram
   \<and> fst (relate empty_diagram ''X'' [] ASSOCIATION None)
      = Inl (ValueError ''relation endpoints must not be empty'')
   \<and> snd (relate empty_diagram ''X'' [] ASSOCIATION None) = empty_diagram"
  using C10_error_atomicity [where d = empty_diagram and c = "''X''" and m = "[]"
      and v = PUBLIC and h = None and e = "ValueError ''member name must not be empty''"
      and s = "''X''" and t = "[]" and k = ASSOCIATION and l = None
      and e' = "ValueError ''relation endpoints must not be empty''"]
  by (simp add: add_member_def relate_def)

subsection \<open>Alias allocation\<close>

lemma alias_loop_fresh: "alias_loop used base al counter |\<notin>| used"
  by (induction used base al counter rule: alias_loop.induct)
     (subst alias_loop.simps, simp)

lemma alias_loop_shape:
  "(al |\<notin>| used \<and> alias_loop used base al counter = al)
   \<or> (al |\<in>| used \<and> (\<exists>k\<ge>counter. alias_loop used base al counter = suffixed base k
         \<and> (\<forall>j. counter \<le> j \<and> j < k \<longrightarrow> suffixed base j |\<in>| used)))"
proof (induction used base al counter rule: alias_loop.induct)
  case (1 used base al counter)
  show ?case
  proof (cases "al |\<in>| used")
    case False
    then show ?thesis by (subst alias_loop.simps) simp
  next
    case True
    have eq: "alias_loop used base al counter
        = alias_loop used base (suffixed base counter) (counter + 1)"
      using True by (subst alias_loop.simps) simp
    from 1 [OF True] show ?thesis
    proof
      assume "suffixed base counter |\<notin>| used
        \<and> alias_loop used base (suffixed base counter) (counter + 1) = suffixed base counter"
      then show ?thesis using True eq by auto
    next
      assume "suffixed base counter |\<in>| used \<and>
        (\<exists>k\<ge>counter + 1. alias_loop used base (suffixed base counter) (counter + 1) = suffixed base k
           \<and> (\<forall>j. counter + 1 \<le> j \<and> j < k \<longrightarrow> suffixed base j |\<in>| used))"
      then obtain k where k: "counter + 1 \<le> k"
        "alias_loop used base (suffixed base counter) (counter + 1) = suffixed base k"
        "\<forall>j. counter + 1 \<le> j \<and> j < k \<longrightarrow> suffixed base j |\<in>| used"
        and c: "suffixed base counter |\<in>| used" by blast
      have "\<forall>j. counter \<le> j \<and> j < k \<longrightarrow> suffixed base j |\<in>| used"
      proof (intro allI impI)
        fix j assume "counter \<le> j \<and> j < k"
        then show "suffixed base j |\<in>| used"
          using k(3) c by (cases "j = counter") auto
      qed
      then show ?thesis using True eq k(1,2) by (intro disjI2) (auto intro!: exI [of _ k])
    qed
  qed
qed

lemma getitem_hit: "map_of (alias_map am) n = Some a \<Longrightarrow> getitem am n = (Inr a, am)"
  by (simp add: getitem_def)

lemma getitem_preserves:
  "map_of (alias_map am) n = Some a \<Longrightarrow> map_of (alias_map (snd (getitem am m))) n = Some a"
  by (auto simp: getitem_def create_alias_def Let_def update_conv'
           split: option.splits sum.splits)

lemma getitem_Inr_map:
  "getitem am n = (Inr a, am') \<Longrightarrow> map_of (alias_map am') n = Some a"
  by (auto simp: getitem_def create_alias_def Let_def update_conv'
           split: option.splits sum.splits)

lemma getitems_preserves:
  "map_of (alias_map am) n = Some a \<Longrightarrow> map_of (alias_map (snd (getitems am ns))) n = Some a"
proof (induction ns arbitrary: am)
  case Nil
  then show ?case by simp
next
  case (Cons m ns)
  obtain r am' where g: "getitem am m = (r, am')" by (cases "getitem am m")
  have p: "map_of (alias_map am') n = Some a"
    using getitem_preserves [OF Cons.prems, of m] g by simp
  show ?case
  proof (cases r)
    case (Inl e)
    then show ?thesis using g p by simp
  next
    case (Inr al)
    obtain r' am'' where g': "getitems am' ns = (r', am'')" by (cases "getitems am' ns")
    have "map_of (alias_map am'') n = Some a" using Cons.IH [OF p] g' by simp
    then show ?thesis using g Inr g' by (cases r') simp_all
  qed
qed

lemma getitem_memo:
  assumes "getitem am n = (Inr a, am1)" and "getitems am1 ns = (r, am2)"
  shows "getitem am2 n = (Inr a, am2)"
proof -
  have "map_of (alias_map am1) n = Some a" using assms(1) by (rule getitem_Inr_map)
  then have "map_of (alias_map am2) n = Some a"
    using getitems_preserves [of am1 n a ns] assms(2) by simp
  then show ?thesis by (rule getitem_hit)
qed

lemma getitem_first:
  assumes "map_of (alias_map am) n = None" and "sanitize n = Inr base"
  shows "\<exists>a'. fst (getitem am n) = Inr a' \<and> a' |\<notin>| alias_used am
     \<and> (if base |\<notin>| alias_used am then a' = base
         else \<exists>k\<ge>2. a' = suffixed base k
                \<and> (\<forall>j. 2 \<le> j \<and> j < k \<longrightarrow> suffixed base j |\<in>| alias_used am))
     \<and> alias_used (snd (getitem am n)) = finsert a' (alias_used am)
     \<and> map_of (alias_map (snd (getitem am n))) n = Some a'"
proof -
  let ?a = "alias_loop (alias_used am) base base 2"
  have g: "getitem am n = (Inr ?a, am\<lparr>alias_used := finsert ?a (alias_used am),
              alias_map := AList.update n ?a (alias_map am)\<rparr>)"
    using assms by (simp add: getitem_def create_alias_def Let_def)
  have f: "?a |\<notin>| alias_used am" by (rule alias_loop_fresh)
  have s: "if base |\<notin>| alias_used am then ?a = base
         else \<exists>k\<ge>2. ?a = suffixed base k
                \<and> (\<forall>j. 2 \<le> j \<and> j < k \<longrightarrow> suffixed base j |\<in>| alias_used am)"
    using alias_loop_shape [of base "alias_used am" base 2] by auto
  show ?thesis using g f s by (intro exI [of _ ?a]) (simp add: update_conv')
qed

lemma strip_underscores_shape:
  assumes "strip_underscores s \<noteq> []"
  shows "hd (strip_underscores s) \<noteq> CHR ''_'' \<and> last (strip_underscores s) \<noteq> CHR ''_''
     \<and> (\<exists>pre post. s = pre @ strip_underscores s @ post
           \<and> set pre \<subseteq> {CHR ''_''} \<and> set post \<subseteq> {CHR ''_''})"
proof -
  let ?P = "\<lambda>c. c = CHR ''_''"
  define ys where "ys = dropWhile ?P s"
  define post where "post = rev (takeWhile ?P (rev ys))"
  define b where "b = rev (dropWhile ?P (rev ys))"
  have bs: "strip_underscores s = b" by (simp add: strip_underscores_def b_def ys_def)
  have "rev ys = takeWhile ?P (rev ys) @ dropWhile ?P (rev ys)" by simp
  then have "rev (rev ys) = rev (takeWhile ?P (rev ys) @ dropWhile ?P (rev ys))"
    by (rule arg_cong)
  then have ysb: "ys = b @ post" by (simp only: rev_rev_ident rev_append b_def post_def)
  have s: "s = takeWhile ?P s @ b @ post" unfolding ysb [symmetric] ys_def by simp
  have pre: "set (takeWhile ?P s) \<subseteq> {CHR ''_''}" by (auto dest: set_takeWhileD)
  have post: "set post \<subseteq> {CHR ''_''}" unfolding post_def by (auto dest: set_takeWhileD)
  have ne: "b \<noteq> []" using assms bs by simp
  then have ne': "dropWhile ?P (rev ys) \<noteq> []" by (simp add: b_def)
  have "\<not> ?P (hd (dropWhile ?P (rev ys)))" using ne' by (rule hd_dropWhile)
  then have l: "last b \<noteq> CHR ''_''" using ne' by (simp add: b_def last_rev)
  have yne: "ys \<noteq> []" using ne by (simp add: ysb)
  then have "\<not> ?P (hd ys)" unfolding ys_def by (rule hd_dropWhile)
  moreover have "hd ys = hd b" using ne by (simp add: ysb)
  ultimately have h: "hd b \<noteq> CHR ''_''" by simp
  show ?thesis unfolding bs using h l s pre post by blast
qed

lemma strip_underscores_subset: "set (strip_underscores s) \<subseteq> set s"
proof -
  have "set (dropWhile (\<lambda>c. c = CHR ''_'') (rev (dropWhile (\<lambda>c. c = CHR ''_'') s)))
      \<subseteq> set (rev (dropWhile (\<lambda>c. c = CHR ''_'') s))"
    by (auto dest: set_dropWhileD)
  also have "\<dots> \<subseteq> set s" by (auto dest: set_dropWhileD)
  finally show ?thesis by (simp add: strip_underscores_def)
qed

lemma sanitize_shape:
  assumes "sanitize n = Inr base"
  shows "base \<noteq> [] \<and> (\<forall>ch\<in>set base. VALID_CHARS ch)
     \<and> hd base \<noteq> CHR ''_'' \<and> last base \<noteq> CHR ''_''
     \<and> (\<exists>pre post. map (\<lambda>ch. if VALID_CHARS ch then ch else CHR ''_'') n = pre @ base @ post
           \<and> set pre \<subseteq> {CHR ''_''} \<and> set post \<subseteq> {CHR ''_''})"
proof -
  let ?cs = "map (\<lambda>ch. if VALID_CHARS ch then ch else CHR ''_'') n"
  have b: "base = strip_underscores ?cs" and ne: "strip_underscores ?cs \<noteq> []"
    using assms by (auto simp: sanitize_def Let_def split: if_splits)
  have v: "\<forall>ch\<in>set ?cs. VALID_CHARS ch" by (auto simp: VALID_CHARS_def)
  have "\<forall>ch\<in>set base. VALID_CHARS ch"
    using v strip_underscores_subset [of ?cs] unfolding b by blast
  then show ?thesis using strip_underscores_shape [OF ne] ne unfolding b by blast
qed

lemma str_nat_2: "str_nat 2 = ''2''"
  by code_simp

lemma sanitize_A_B: "sanitize ''A B'' = Inr ''A_B''"
  by (simp add: sanitize_def strip_underscores_def VALID_CHARS_def)

lemma sanitize_A_dot_B: "sanitize ''A.B'' = Inr ''A_B''"
  by (simp add: sanitize_def strip_underscores_def VALID_CHARS_def)

lemma alias_loop_first: "alias_loop {||} ''A_B'' ''A_B'' 2 = ''A_B''"
  by (subst alias_loop.simps) simp

lemma alias_loop_second: "alias_loop {|''A_B''|} ''A_B'' ''A_B'' 2 = ''A_B_2''"
  by (subst alias_loop.simps, simp, subst alias_loop.simps)
     (simp add: suffixed_def str_nat_2)

lemma example_aliases:
  "fst (getitems new_AliasMap [''A B'', ''A.B'']) = Inr [''A_B'', ''A_B_2'']"
  by (simp add: getitem_def create_alias_def new_AliasMap_def sanitize_A_B sanitize_A_dot_B
        alias_loop_first alias_loop_second Let_def)

lemma example_am1_eq:
  "getitem new_AliasMap ''A B'' = (Inr ''A_B'', example_am1)"
  "map_of (alias_map example_am1) ''A.B'' = None"
  by (simp_all add: example_am1_def getitem_def create_alias_def new_AliasMap_def
        sanitize_A_B alias_loop_first Let_def)

text \<open>
  C4. Alias allocation is memoized: once \<^verbatim>\<open>alias[n]\<close> has returned \<open>a\<close>, it returns
  \<open>a\<close> again after any further run of requests on the same map. The first request for
  a name returns the sanitized name \<open>base\<close> if that is unused and otherwise the first
  unused of \<open>base_2\<close>, \<open>base_3\<close>, ...; the result is new among the used identifiers.
  The sanitized name is the name with every character outside letters, digits and
  underscore replaced by an underscore, and with the underscores at both ends removed.
  Requests for \<^verbatim>\<open>"A B"\<close> and \<^verbatim>\<open>"A.B"\<close> in this order yield \<^verbatim>\<open>A_B\<close> and
  \<^verbatim>\<open>A_B_2\<close>.
\<close>

theorem C4_alias_allocation:
  "(getitem am n = (Inr a, am1) \<and> getitems am1 ns = (r, am2) \<longrightarrow> getitem am2 n = (Inr a, am2))
   \<and> (map_of (alias_map am) n = None \<and> sanitize n = Inr base \<longrightarrow>
        (\<exists>a'. fst (getitem am n) = Inr a' \<and> a' |\<notin>| alias_used am
           \<and> (if base |\<notin>| alias_used am then a' = base
               else \<exists>k\<ge>2. a' = suffixed base k
                      \<and> (\<forall>j. 2 \<le> j \<and> j < k \<longrightarrow> suffixed base j |\<in>| alias_used am))
           \<and> alias_used (snd (getitem am n)) = finsert a' (alias_used am)
           \<and> map_of (alias_map (snd (getitem am n))) n = Some a'))
   \<and> (sanitize n = Inr base \<longrightarrow>
        base \<noteq> [] \<and> (\<forall>ch\<in>set base. VALID_CHARS ch)
        \<and> hd base \<noteq> CHR ''_'' \<and> last base \<noteq> CHR ''_''
        \<and> (\<exists>pre post. map (\<lambda>ch. if VALID_CHARS ch then ch else CHR ''_'') n = pre @ base @ post
              \<and> set pre \<subseteq> {CHR ''_''} \<and> set post \<subseteq> {CHR ''_''}))
   \<and> fst (getitems new_AliasMap [''A B'', ''A.B'']) = Inr [''A_B'', ''A_B_2'']"
proof (intro conjI impI)
  assume "getitem am n = (Inr a, am1) \<and> getitems am1 ns = (r, am2)"
  then show "getitem am2 n = (Inr a, am2)"
    using getitem_memo [of am n a am1 ns r am2] by blast
next
  assume "map_of (alias_map am) n = None \<and> sanitize n = Inr base"
  then have "map_of (alias_map am) n = None" and "sanitize n = Inr base" by blast+
  then show "\<exists>a'. fst (getitem am n) = Inr a' \<and> a' |\<notin>| alias_used am
           \<and> (if base |\<notin>| alias_used am then a' = base
               else \<exists>k\<ge>2. a' = suffixed base k
                      \<and> (\<forall>j. 2 \<le> j \<and> j < k \<longrightarrow> suffixed base j |\<in>| alias_used am))
           \<and> alias_used (snd (getitem am n)) = finsert a' (alias_used am)
           \<and> map_of (alias_map (snd (getitem am n))) n = Some a'"
    by (rule getitem_first)
next
  assume s: "sanitize n = Inr base"
  show "base \<noteq> []" "\<forall>ch\<in>set base. VALID_CHARS ch" "hd base \<noteq> CHR ''_''"
    "last base \<noteq> CHR ''_''"
    "\<exists>pre post. map (\<lambda>ch. if VALID_CHARS ch then ch else CHR ''_'') n = pre @ base @ post
              \<and> set pre \<subseteq> {CHR ''_''} \<and> set post \<subseteq> {CHR ''_''}"
    using sanitize_shape [OF s] by blast+
next
  show "fst (getitems new_AliasMap [''A B'', ''A.B'']) = Inr [''A_B'', ''A_B_2'']"
    by (rule example_aliases)
qed

theorem C4_alias_allocation_witness:
  "getitem new_AliasMap ''A B'' = (Inr ''A_B'', example_am1)
   \<and> getitem example_am2 ''A B'' = (Inr ''A_B'', example_am2)
   \<and> sanitize ''A.B'' = Inr ''A_B''
   \<and> (\<exists>a'. fst (getitem example_am1 ''A.B'') = Inr a' \<and> a' |\<notin>| alias_used example_am1)"
proof -
  have g2: "getitems example_am1 [''A.B''] = (fst (getitems example_am1 [''A.B'']), example_am2)"
    by (simp add: example_am2_def)
  have w1: "getitem example_am2 ''A B'' = (Inr ''A_B'', example_am2)"
    using C4_alias_allocation [where am = new_AliasMap and n = "''A B''" and a = "''A_B''"
        and ?am1.0 = example_am1 and ns = "[''A.B'']"
        and r = "fst (getitems example_am1 [''A.B''])" and ?am2.0 = example_am2]
      example_am1_eq(1) g2
    by blast
  have w3: "\<exists>a'. fst (getitem example_am1 ''A.B'') = Inr a' \<and> a' |\<notin>| alias_used example_am1"
    using C4_alias_allocation [where am = example_am1 and n = "''A.B''" and base = "''A_B''"]
      example_am1_eq(2) sanitize_A_dot_B
    by blast
  show ?thesis using example_am1_eq(1) w1 w3 sanitize_A_dot_B by blast
qed

subsection \<open>Rendering does not depend on insertion order\<close>

lemma filter_key_distinct:
  "distinct (map f xs) \<Longrightarrow> k \<in> set xs \<Longrightarrow> filter (\<lambda>x. f k = f x) xs = [k]"
proof (induction xs)
  case Nil
  then show ?case by simp
next
  case (Cons x xs)
  show ?case
  proof (cases "k = x")
    case True
    have "\<forall>y\<in>set xs. f x \<noteq> f y" using Cons.prems(1) by auto
    then have "filter (\<lambda>y. f x = f y) xs = []" by (simp add: filter_empty_conv)
    then show ?thesis using True by simp
  next
    case False
    then have k: "k \<in> set xs" using Cons.prems(2) by simp
    then have "f k \<in> f ` set xs" by (rule imageI)
    then have "f k \<noteq> f x" using Cons.prems(1) by auto
    then show ?thesis using Cons.IH k Cons.prems(1) by simp
  qed
qed

lemma sort_key_unique:
  assumes "mset xs = mset ys" and "distinct (map f xs)"
  shows "sort_key f xs = sort_key f ys"
proof (rule properties_for_sort_key)
  show "mset (sort_key f ys) = mset xs" using assms(1) by simp
  show "sorted (map f (sort_key f ys))" by (rule sorted_sort_key)
  fix k assume "k \<in> set (sort_key f ys)"
  then have ky: "k \<in> set ys" by simp
  then have kx: "k \<in> set xs" using assms(1) by (metis mset_eq_setD)
  have "mset (map f xs) = mset (map f ys)" using assms(1) by (metis mset_map)
  then have dy: "distinct (map f ys)" using assms(2) by (metis mset_eq_imp_distinct_iff)
  have "filter (\<lambda>x. f k = f x) (sort_key f ys) = sort_key f (filter (\<lambda>x. f k = f x) ys)"
    by (rule filter_sort)
  also have "\<dots> = [k]" using filter_key_distinct [OF dy ky] by simp
  also have "\<dots> = filter (\<lambda>x. f k = f x) xs" using filter_key_distinct [OF assms(2) kx] by simp
  finally show "filter (\<lambda>x. f k = f x) (sort_key f ys) = filter (\<lambda>x. f k = f x) xs" .
qed

lemma name_keyed_names: "name_keyed cs \<Longrightarrow> map node_name (map snd cs) = map fst cs"
  by (induction cs) (auto simp: name_keyed_def)

lemma sorted_values_eq:
  assumes "name_keyed xs" and "name_keyed ys" and "map_of xs = map_of ys"
  shows "sort_key node_name (map snd xs) = sort_key node_name (map snd ys)"
proof -
  have dx: "distinct (map fst xs)" and dy: "distinct (map fst ys)"
    using assms(1,2) by (simp_all add: name_keyed_def)
  have "set xs = set ys" using map_of_inject_set [OF dx dy] assms(3) by simp
  moreover have "distinct xs" "distinct ys" using dx dy by (simp_all add: distinct_map)
  ultimately have "mset xs = mset ys" by (simp add: set_eq_iff_mset_eq_distinct)
  then have m: "mset (map snd xs) = mset (map snd ys)" by (metis mset_map)
  have "distinct (map node_name (map snd xs))"
    unfolding name_keyed_names [OF assms(1)] by (rule dx)
  with m show ?thesis by (rule sort_key_unique)
qed

lemma truthy_or_empty: "truthy l \<longleftrightarrow> or_empty l \<noteq> []"
  by (cases l) simp_all

lemma RelationKind_value_inj: "RelationKind_value k = RelationKind_value k' \<Longrightarrow> k = k'"
  by (cases k; cases k'; simp)

lemma relation_key_eqD:
  assumes "relation_key r = relation_key r'"
  shows "src r = src r'" "dst r = dst r'" "relation_line s t r = relation_line s t r'"
proof -
  show "src r = src r'" "dst r = dst r'" using assms by (simp_all add: relation_key_def)
  have "kind r = kind r'" using assms by (simp add: relation_key_def RelationKind_value_inj)
  moreover have "or_empty (label r) = or_empty (label r')"
    using assms by (simp add: relation_key_def)
  ultimately show "relation_line s t r = relation_line s t r'"
    by (simp add: relation_line_def truthy_or_empty)
qed

lemma render_relations_cong:
  "map relation_key rs = map relation_key rs'
     \<Longrightarrow> render_relations am lines rs = render_relations am lines rs'"
proof (induction rs arbitrary: rs' am lines)
  case Nil
  then show ?case by simp
next
  case (Cons r rs)
  then obtain r' rs'' where rs': "rs' = r' # rs''" and k: "relation_key r = relation_key r'"
    and m: "map relation_key rs = map relation_key rs''" by (cases rs') auto
  have ih: "\<And>am lines. render_relations am lines rs = render_relations am lines rs''"
    using Cons.IH [OF m] .
  show ?case
    unfolding rs' render_relations.simps
    using relation_key_eqD [OF k] ih
    by (simp split: prod.splits sum.splits)
qed

lemma sorted_keys_eq:
  assumes "mset rs = mset rs'"
  shows "map relation_key (sort_key relation_key rs)
       = map relation_key (sort_key relation_key rs')"
proof -
  define A where "A = map relation_key (sort_key relation_key rs)"
  define B where "B = map relation_key (sort_key relation_key rs')"
  have "mset A = image_mset relation_key (mset rs)" by (simp add: A_def)
  also have "\<dots> = mset B" using assms by (simp add: B_def)
  finally have m: "mset A = mset B" .
  have sa: "sorted A" and sb: "sorted B" unfolding A_def B_def by (rule sorted_sort_key)+
  have "sort B = A" using m sa by (rule properties_for_sort)
  moreover have "sort B = B" using sb by (rule sorted_sort_id)
  ultimately show ?thesis unfolding A_def B_def by simp
qed

text \<open>
  The public operations keep \<^const>\<open>name_keyed\<close>: starting from the empty diagram,
  every diagram built with \<^verbatim>\<open>add_class\<close>, \<^verbatim>\<open>add_member\<close> and \<^verbatim>\<open>relate\<close>
  maps each class name to the node of that name.
\<close>

lemma name_keyed_update:
  "name_keyed cs \<Longrightarrow> node_name c = k \<Longrightarrow> name_keyed (AList.update k c cs)"
proof (induction cs)
  case Nil
  then show ?case by (simp add: name_keyed_def)
next
  case (Cons p cs)
  then have "name_keyed cs" by (auto simp: name_keyed_def)
  then have "name_keyed (AList.update k c cs)" using Cons by simp
  then show ?case using Cons.prems
    by (cases p) (force simp: name_keyed_def dom_update)
qed

lemma name_keyed_lookup:
  "name_keyed cs \<Longrightarrow> map_of cs k = Some c \<Longrightarrow> node_name c = k"
  by (auto simp: name_keyed_def list_all_iff dest: map_of_SomeD)

lemma ensure_class_name_keyed:
  assumes "name_keyed (classes d)"
  shows "name_keyed (classes (snd (ensure_class d n st)))"
    and "fst (ensure_class d n st) = Inr node \<Longrightarrow> node_name node = n"
  using assms name_keyed_lookup [of "classes d" n]
  by (auto simp: ensure_class_def Let_def name_keyed_update split: option.splits if_splits)

lemma add_member_name_keyed:
  assumes "name_keyed (classes d)"
  shows "name_keyed (classes (snd (add_member d c m v h)))"
proof -
  obtain r d' where e: "ensure_class d c None = (r, d')" by (cases "ensure_class d c None")
  have k: "name_keyed (classes d')" using ensure_class_name_keyed(1) [OF assms, of c None] e by simp
  show ?thesis
  proof (cases r)
    case (Inl x)
    then show ?thesis using e k assms by (simp add: add_member_def)
  next
    case (Inr node)
    then have "node_name node = c" using ensure_class_name_keyed(2) [OF assms, of c None node] e by simp
    then show ?thesis using e k assms Inr by (simp add: add_member_def name_keyed_update)
  qed
qed

lemma relate_name_keyed:
  assumes "name_keyed (classes d)"
  shows "name_keyed (classes (snd (relate d s t k l)))"
proof -
  obtain r1 d1 where e1: "ensure_class d s None = (r1, d1)" by (cases "ensure_class d s None")
  have k1: "name_keyed (classes d1)" using ensure_class_name_keyed(1) [OF assms, of s None] e1 by simp
  obtain r2 d2 where e2: "ensure_class d1 t None = (r2, d2)" by (cases "ensure_class d1 t None")
  have k2: "name_keyed (classes d2)" using ensure_class_name_keyed(1) [OF k1, of t None] e2 by simp
  show ?thesis using assms e1 e2 k1 k2
    by (cases r1; cases r2) (simp_all add: relate_def)
qed

lemma empty_diagram_name_keyed: "name_keyed (classes empty_diagram)"
  by (simp add: empty_diagram_def name_keyed_def)

text \<open>
  C5. Two diagrams whose \<^verbatim>\<open>classes\<close> are the same mapping from class names to nodes
  (each a mapping from names to the nodes of those names, whatever the insertion order)
  and whose \<^verbatim>\<open>relations\<close> are permutations of each other render to the same
  outcome: the same text, or the same error.
\<close>

theorem C5_render_order_independent:
  "name_keyed (classes d1) \<and> name_keyed (classes d2)
   \<and> map_of (classes d1) = map_of (classes d2)
   \<and> mset (relations d1) = mset (relations d2)
   \<longrightarrow> render d1 = render d2"
proof (intro impI, elim conjE)
  assume n1: "name_keyed (classes d1)" and n2: "name_keyed (classes d2)"
    and c: "map_of (classes d1) = map_of (classes d2)"
    and r: "mset (relations d1) = mset (relations d2)"
  have cs: "sort_key node_name (map snd (classes d1)) = sort_key node_name (map snd (classes d2))"
    using n1 n2 c by (rule sorted_values_eq)
  have rs: "\<And>am lines.
      render_relations am lines (sort_key relation_key (relations d1))
    = render_relations am lines (sort_key relation_key (relations d2))"
    using sorted_keys_eq [OF r] by (rule render_relations_cong)
  show "render d1 = render d2"
    by (simp add: render_def Let_def cs rs split: sum.splits prod.splits)
qed

lemma example_maps: "map_of (classes example_d1) = map_of (classes example_d2)"
  by (auto simp: example_d1_def example_d2_def fun_eq_iff)

theorem C5_render_order_independent_witness:
  "name_keyed (classes example_d1) \<and> name_keyed (classes example_d2)
   \<and> map_of (classes example_d1) = map_of (classes example_d2)
   \<and> mset (relations example_d1) = mset (relations example_d2)
   \<and> classes example_d1 \<noteq> classes example_d2
   \<and> relations example_d1 \<noteq> relations example_d2
   \<and> render example_d1 = render example_d2"
proof -
  have h: "name_keyed (classes example_d1) \<and> name_keyed (classes example_d2)
     \<and> map_of (classes example_d1) = map_of (classes example_d2)
     \<and> mset (relations example_d1) = mset (relations example_d2)"
    using example_maps by (simp add: name_keyed_def example_d1_def example_d2_def)
  moreover have "classes example_d1 \<noteq> classes example_d2
     \<and> relations example_d1 \<noteq> relations example_d2"
    by (simp add: example_d1_def example_d2_def)
  ultimately show ?thesis
    using C5_render_order_independent [of example_d1 example_d2] by blast
qed

section \<open>Properties of the drawing functions\<close>

subsection \<open>Termination of the component nesting\<close>

lemma draw_sub_components_returns:
  assumes "\<And>c m pi pu. c \<in> set cs \<Longrightarrow> map_of an c = Some m
             \<Longrightarrow> need_type m \<in> {''comp'', ''comp_arc_sta''}
             \<Longrightarrow> \<exists>r. rec m pi pu (need_consists_of m \<noteq> []) = Some r"
  shows "\<exists>r. draw_sub_components rec cs an acc = Some r"
  using assms
proof (induction cs arbitrary: acc)
  case Nil
  show ?case by (rule exI) (rule draw_sub_components.simps(1))
next
  case (Cons c cs)
  have tl: "\<exists>r. draw_sub_components rec cs an acc' = Some r" for acc'
    by (rule Cons.IH) (rule Cons.prems, simp_all)
  show ?case
  proof (cases "map_of an c")
    case None
    then show ?thesis using tl by simp
  next
    case (Some m)
    show ?thesis
    proof (cases "need_type m \<in> {''comp'', ''comp_arc_sta''}")
      case False
      then show ?thesis using Some tl by simp
    next
      case True
      obtain st lt pi pu where acc: "acc = (st, lt, pi, pu)" using prod_cases4 by blast
      from Cons.prems [of c m pi pu] Some True
      obtain r where r: "rec m pi pu (need_consists_of m \<noteq> []) = Some r" by auto
      obtain st' lt' pi' pu' where r': "r = (st', lt', pi', pu')" using prod_cases4 by blast
      show ?thesis using Some True acc r r' tl by simp
    qed
  qed
qed

lemma draw_sub_components_stuck:
  assumes "map_of an c = Some m" and "need_type m \<in> {''comp'', ''comp_arc_sta''}"
    and "\<And>pi pu. rec m pi pu (need_consists_of m \<noteq> []) = None"
  shows "draw_sub_components rec (c # cs) an acc = None"
  using assms by (cases acc rule: prod_cases4) simp

lemma draw_comp_black_box:
  "\<exists>r. draw_comp_incl_impl_int (Suc k) h n an pi pu False = Some r"
  by (simp split: prod.splits)

lemma container_childrenI:
  assumes "c \<in> set (need_includes n @ need_consists_of n)" and "map_of an c = Some m"
    and "need_type m \<in> {''comp'', ''comp_arc_sta''}" and "need_consists_of m \<noteq> []"
  shows "m \<in> set (container_children an n)"
  using assms unfolding container_children_def by force

lemma container_childrenE:
  assumes "m \<in> set (container_children an n)"
  obtains c where "c \<in> set (need_includes n @ need_consists_of n)" and "map_of an c = Some m"
    and "need_type m \<in> {''comp'', ''comp_arc_sta''}" and "need_consists_of m \<noteq> []"
proof -
  from assms obtain c where c: "c \<in> set (need_includes n @ need_consists_of n)"
    and m: "m \<in> set (case map_of an c of None \<Rightarrow> []
                | Some m \<Rightarrow> (if need_type m \<in> {''comp'', ''comp_arc_sta''} \<and> need_consists_of m \<noteq> []
                             then [m] else []))"
    unfolding container_children_def by auto
  from m obtain m' where m': "map_of an c = Some m'" by (cases "map_of an c") auto
  from m m' have "m' = m" "need_type m \<in> {''comp'', ''comp_arc_sta''}" "need_consists_of m \<noteq> []"
    by (auto split: if_splits)
  then show ?thesis using that c m' by blast
qed

lemma draw_sub_components_SomeD:
  assumes "draw_sub_components rec cs an acc = Some r" and "c \<in> set cs"
    and "map_of an c = Some m" and "need_type m \<in> {''comp'', ''comp_arc_sta''}"
  shows "\<exists>pi pu r'. rec m pi pu (need_consists_of m \<noteq> []) = Some r'"
  using assms(1,2)
proof (induction cs arbitrary: acc)
  case Nil
  then show ?case by simp
next
  case (Cons c' cs)
  obtain st lt pi pu where acc: "acc = (st, lt, pi, pu)" using prod_cases4 by blast
  show ?case
  proof (cases "map_of an c'")
    case None
    then have "c' \<noteq> c" using assms(3) by auto
    then show ?thesis using Cons None by simp
  next
    case (Some m')
    note m' = this
    show ?thesis
    proof (cases "need_type m' \<in> {''comp'', ''comp_arc_sta''}")
      case False
      then have "c' \<noteq> c" using assms(3,4) m' by auto
      then show ?thesis using Cons m' False by simp
    next
      case True
      have step: "draw_sub_components rec (c' # cs) an acc
          = (case rec m' pi pu (need_consists_of m' \<noteq> []) of
               None \<Rightarrow> None
             | Some (ss, sl, pi', pu') \<Rightarrow>
                 draw_sub_components rec cs an (st @ ss, lt @ sl, pi', pu'))"
        unfolding acc using m' True by simp
      show ?thesis
      proof (cases "rec m' pi pu (need_consists_of m' \<noteq> [])")
        case None
        then show ?thesis using Cons.prems(1) unfolding step by simp
      next
        case (Some r1)
        note r1 = this
        show ?thesis
        proof (cases "c' = c")
          case True
          then have "m' = m" using m' assms(3) by simp
          then show ?thesis using r1 by blast
        next
          case False
          obtain st' lt' pi' pu' where "r1 = (st', lt', pi', pu')" using prod_cases4 by blast
          then have "draw_sub_components rec cs an (st @ st', lt @ lt', pi', pu') = Some r"
            using Cons.prems(1) r1 unfolding step by simp
          then show ?thesis using Cons.IH Cons.prems(2) False by simp
        qed
      qed
    qed
  qed
qed

lemma nesting_height_le_Suc: "nesting_height_le an d n \<Longrightarrow> nesting_height_le an (Suc d) n"
proof (induction d arbitrary: n)
  case 0
  then show ?case by simp
next
  case (Suc d)
  from Suc.prems have "\<forall>m\<in>set (container_children an n). nesting_height_le an d m"
    by (simp add: list_all_iff)
  then have "\<forall>m\<in>set (container_children an n). nesting_height_le an (Suc d) m"
    using Suc.IH by blast
  then have "list_all (nesting_height_le an (Suc d)) (container_children an n)"
    unfolding list_all_iff .
  then show ?case by (subst nesting_height_le.simps(2))
qed

lemma nesting_height_le_child:
  assumes "nesting_height_le an d n" and "m \<in> set (container_children an n)"
  obtains d' where "d = Suc d'" and "nesting_height_le an d' m"
  using assms by (cases d) (auto simp: list_all_iff)

lemma draw_comp_returns:
  "(if wb then nesting_height_le an d n \<and> d + 2 \<le> k else 1 \<le> k)
     \<Longrightarrow> \<exists>r. draw_comp_incl_impl_int k h n an pi pu wb = Some r"
proof (induction k arbitrary: n d pi pu wb)
  case 0
  then show ?case by (simp split: if_splits)
next
  case (Suc k)
  show ?case
  proof (cases wb)
    case False
    then show ?thesis using draw_comp_black_box by simp
  next
    case True
    then have hn: "nesting_height_le an d n" and dk: "d + 1 \<le> k" using Suc.prems by simp_all
    have "\<exists>r. draw_sub_components (\<lambda>c. draw_comp_incl_impl_int k h c an)
                 (need_includes n @ need_consists_of n) an acc = Some r" for acc
    proof (rule draw_sub_components_returns)
      fix c m pi' pu'
      assume c: "c \<in> set (need_includes n @ need_consists_of n)"
        and m: "map_of an c = Some m"
        and t: "need_type m \<in> {''comp'', ''comp_arc_sta''}"
      show "\<exists>r. draw_comp_incl_impl_int k h m an pi' pu' (need_consists_of m \<noteq> []) = Some r"
      proof (cases "need_consists_of m \<noteq> []")
        case True
        have "m \<in> set (container_children an n)" by (rule container_childrenI [OF c m t True])
        with hn obtain d' where d': "d = Suc d'" "nesting_height_le an d' m"
          by (rule nesting_height_le_child)
        then have "if True then nesting_height_le an d' m \<and> d' + 2 \<le> k else 1 \<le> k"
          using dk by simp
        then have "\<exists>r. draw_comp_incl_impl_int k h m an pi' pu' True = Some r" by (rule Suc.IH)
        then show ?thesis using True by simp
      next
        case False
        have "if False then nesting_height_le an 0 m \<and> 0 + 2 \<le> k else 1 \<le> k"
          using dk by simp
        then have "\<exists>r. draw_comp_incl_impl_int k h m an pi' pu' False = Some r" by (rule Suc.IH)
        then show ?thesis using False by simp
      qed
    qed
    then obtain r where
      "draw_sub_components (\<lambda>c. draw_comp_incl_impl_int k h c an)
         (need_includes n @ need_consists_of n) an
         (gen_struct_element h ''component'' n @ ''  {'' @ [NL], [], pi, pu) = Some r"
      by blast
    then show ?thesis using True by (simp split: prod.splits)
  qed
qed

lemma draw_comp_returnsD:
  "draw_comp_incl_impl_int k h n an pi pu True = Some r \<Longrightarrow> nesting_height_le an (k - 1) n"
proof (induction k arbitrary: n pi pu r)
  case 0
  then show ?case by simp
next
  case (Suc k)
  from Suc.prems obtain r0 where r0:
    "draw_sub_components (\<lambda>c. draw_comp_incl_impl_int k h c an)
       (need_includes n @ need_consists_of n) an
       (gen_struct_element h ''component'' n @ ''  {'' @ [NL], [], pi, pu) = Some r0"
    by (auto split: option.splits)
  have child: "\<exists>pi' pu' r'. draw_comp_incl_impl_int k h m an pi' pu' True = Some r'"
    if "m \<in> set (container_children an n)" for m
  proof -
    from that obtain c where c: "c \<in> set (need_includes n @ need_consists_of n)"
      and m: "map_of an c = Some m" and t: "need_type m \<in> {''comp'', ''comp_arc_sta''}"
      and ne: "need_consists_of m \<noteq> []"
      by (rule container_childrenE)
    from draw_sub_components_SomeD [OF r0 c m t] ne show ?thesis by simp
  qed
  show ?case
  proof (cases k)
    case 0
    have "container_children an n = []"
    proof (cases "container_children an n")
      case Nil
      then show ?thesis .
    next
      case (Cons m ms)
      then have "m \<in> set (container_children an n)" by simp
      from child [OF this] 0 show ?thesis by simp
    qed
    then show ?thesis using 0 by simp
  next
    case (Suc j)
    have "nesting_height_le an j m" if "m \<in> set (container_children an n)" for m
    proof -
      from child [OF that] obtain pi' pu' r'
        where "draw_comp_incl_impl_int k h m an pi' pu' True = Some r'" by blast
      from Suc.IH [OF this] Suc show ?thesis by simp
    qed
    then show ?thesis using Suc by (simp add: list_all_iff)
  qed
qed

lemma nesting_height_le_step:
  assumes "nesting_height_le an d n" and "(n, m) \<in> container_step an"
  shows "nesting_height_le an d m"
proof -
  from assms(2) have "m \<in> set (container_children an n)" by (simp add: container_step_def)
  with assms(1) obtain d' where "d = Suc d'" "nesting_height_le an d' m"
    by (rule nesting_height_le_child)
  then show ?thesis using nesting_height_le_Suc by simp
qed

lemma nesting_height_le_reach:
  assumes "(n, m) \<in> (container_step an)\<^sup>*" and "nesting_height_le an d n"
  shows "nesting_height_le an d m"
  using assms by (induction rule: rtrancl_induct) (auto intro: nesting_height_le_step)

lemma nesting_height_le_acyclic:
  "nesting_height_le an d n \<Longrightarrow> (n, n) \<notin> (container_step an)\<^sup>+"
proof (induction d arbitrary: n)
  case 0
  show ?case
  proof
    assume "(n, n) \<in> (container_step an)\<^sup>+"
    then obtain m where "(n, m) \<in> container_step an" by (auto dest: tranclD)
    then show False using 0 by (simp add: container_step_def)
  qed
next
  case (Suc d)
  show ?case
  proof
    assume "(n, n) \<in> (container_step an)\<^sup>+"
    then obtain m where nm: "(n, m) \<in> container_step an" and mn: "(m, n) \<in> (container_step an)\<^sup>*"
      by (auto dest: tranclD)
    from nm have "m \<in> set (container_children an n)" by (simp add: container_step_def)
    then have "nesting_height_le an d m" using Suc.prems by (simp add: list_all_iff)
    moreover from mn nm have "(m, m) \<in> (container_step an)\<^sup>+" by (rule rtrancl_into_trancl1)
    ultimately show False using Suc.IH by blast
  qed
qed

lemma cycle_never_returns:
  "draw_comp_incl_impl_int k h (comp_need ''A'' [''B'']) cyclic_needs pi pu True = None
   \<and> draw_comp_incl_impl_int k h (comp_need ''B'' [''A'']) cyclic_needs pi pu True = None"
proof (induction k arbitrary: pi pu)
  case 0
  show ?case by simp
next
  case (Suc k)
  have ma: "map_of cyclic_needs ''A'' = Some (comp_need ''A'' [''B''])"
    and mb: "map_of cyclic_needs ''B'' = Some (comp_need ''B'' [''A''])"
    by (simp_all add: cyclic_needs_def)
  have t: "need_type (comp_need i ps) \<in> {''comp'', ''comp_arc_sta''}" for i ps
    by (simp add: comp_need_def)
  have c: "(need_consists_of (comp_need i (p # ps)) \<noteq> []) = True" for i p ps
    by (simp add: comp_need_def)
  have a: "draw_sub_components (\<lambda>c. draw_comp_incl_impl_int k h c cyclic_needs)
             (''B'' # []) cyclic_needs acc = None" for acc
    by (rule draw_sub_components_stuck [OF mb t]) (simp only: c Suc.IH)
  have b: "draw_sub_components (\<lambda>c. draw_comp_incl_impl_int k h c cyclic_needs)
             (''A'' # []) cyclic_needs acc = None" for acc
    by (rule draw_sub_components_stuck [OF ma t]) (simp only: c Suc.IH)
  have fa: "need_includes (comp_need ''A'' [''B'']) @ need_consists_of (comp_need ''A'' [''B''])
              = [''B'']"
    and fb: "need_includes (comp_need ''B'' [''A'']) @ need_consists_of (comp_need ''B'' [''A''])
              = [''A'']"
    by (simp_all add: comp_need_def)
  show ?case
    by (simp only: draw_comp_incl_impl_int.simps fa fb a b if_True option.case simp_thms)
qed

text \<open>
  C1 (as amended). \<^verbatim>\<open>draw_comp_incl_impl_int\<close> keeps no record of the components it has
  expanded. For every behaviour of the helper functions and all registries: a
  black-box call returns at recursion depth 1; a white-box call returns whenever the
  chains of container sub-components that start at the root have at most \<open>d\<close> steps,
  and depth \<open>d + 2\<close> suffices; a white-box call returns at some depth if and only if
  such a bound \<open>d\<close> exists; and it returns at no depth when a container reached from the
  root lies on a cycle of container steps. Needs that the drawing does not reach play
  no part.
\<close>

theorem C1_terminates_iff_nesting_bounded:
  "(nesting_height_le an d root \<and> d + 2 \<le> k \<longrightarrow>
      (\<exists>r. draw_comp_incl_impl_int k h root an proc_impl proc_used True = Some r))
   \<and> (1 \<le> k \<longrightarrow>
      (\<exists>r. draw_comp_incl_impl_int k h root an proc_impl proc_used False = Some r))
   \<and> ((\<exists>k r. draw_comp_incl_impl_int k h root an proc_impl proc_used True = Some r)
        \<longleftrightarrow> (\<exists>d. nesting_height_le an d root))
   \<and> ((root, n) \<in> (container_step an)\<^sup>* \<and> (n, n) \<in> (container_step an)\<^sup>+ \<longrightarrow>
        \<not> (\<exists>k r. draw_comp_incl_impl_int k h root an proc_impl proc_used True = Some r))"
proof (intro conjI impI)
  assume "nesting_height_le an d root \<and> d + 2 \<le> k"
  then have "if True then nesting_height_le an d root \<and> d + 2 \<le> k else 1 \<le> k" by simp
  then show "\<exists>r. draw_comp_incl_impl_int k h root an proc_impl proc_used True = Some r"
    by (rule draw_comp_returns)
next
  assume "1 \<le> k"
  then have "if False then nesting_height_le an 0 root \<and> 0 + 2 \<le> k else 1 \<le> k" by simp
  then show "\<exists>r. draw_comp_incl_impl_int k h root an proc_impl proc_used False = Some r"
    by (rule draw_comp_returns)
next
  show "(\<exists>k r. draw_comp_incl_impl_int k h root an proc_impl proc_used True = Some r)
        \<longleftrightarrow> (\<exists>d. nesting_height_le an d root)"
  proof
    assume "\<exists>k r. draw_comp_incl_impl_int k h root an proc_impl proc_used True = Some r"
    then show "\<exists>d. nesting_height_le an d root" using draw_comp_returnsD by blast
  next
    assume "\<exists>d. nesting_height_le an d root"
    then obtain d where "nesting_height_le an d root" ..
    then have "if True then nesting_height_le an d root \<and> d + 2 \<le> d + 2 else 1 \<le> d + 2"
      by simp
    then have "\<exists>r. draw_comp_incl_impl_int (d + 2) h root an proc_impl proc_used True = Some r"
      by (rule draw_comp_returns)
    then show "\<exists>k r. draw_comp_incl_impl_int k h root an proc_impl proc_used True = Some r" ..
  qed
next
  assume c: "(root, n) \<in> (container_step an)\<^sup>* \<and> (n, n) \<in> (container_step an)\<^sup>+"
  show "\<not> (\<exists>k r. draw_comp_incl_impl_int k h root an proc_impl proc_used True = Some r)"
  proof
    assume "\<exists>k r. draw_comp_incl_impl_int k h root an proc_impl proc_used True = Some r"
    then obtain k r where "draw_comp_incl_impl_int k h root an proc_impl proc_used True = Some r"
      by blast
    then have "nesting_height_le an (k - 1) root" by (rule draw_comp_returnsD)
    with c have "nesting_height_le an (k - 1) n" using nesting_height_le_reach by blast
    then show False using c nesting_height_le_acyclic by blast
  qed
qed

text \<open>
  The container A holds the container B, which holds the leaf C: the nesting below A
  has height 1 and not 0, depth 3 suffices and depth 2 does not. In the graph of the
  two components that contain each other, A lies on a cycle.
\<close>

lemma nested_children:
  "container_children nested_needs (comp_need ''A'' [''B'']) = [comp_need ''B'' [''C'']]"
  "container_children nested_needs (comp_need ''B'' [''C'']) = []"
  by (simp_all add: container_children_def nested_needs_def comp_need_def)

lemma cyclic_children:
  "container_children cyclic_needs (comp_need ''A'' [''B'']) = [comp_need ''B'' [''A'']]"
  "container_children cyclic_needs (comp_need ''B'' [''A'']) = [comp_need ''A'' [''B'']]"
  by (simp_all add: container_children_def cyclic_needs_def comp_need_def)

lemma cyclic_cycle:
  "(comp_need ''A'' [''B''], comp_need ''A'' [''B'']) \<in> (container_step cyclic_needs)\<^sup>+"
proof -
  have "(comp_need ''A'' [''B''], comp_need ''B'' [''A'']) \<in> container_step cyclic_needs"
    and "(comp_need ''B'' [''A''], comp_need ''A'' [''B'']) \<in> container_step cyclic_needs"
    by (simp_all add: container_step_def cyclic_children)
  then show ?thesis by (rule trancl_into_trancl [OF r_into_trancl])
qed

lemma nested_depth_2:
  "draw_comp_incl_impl_int 2 h (comp_need ''A'' [''B'']) nested_needs [] [] True = None"
  by (simp add: numeral_2_eq_2 nested_needs_def comp_need_def)

theorem C1_terminates_iff_nesting_bounded_witness:
  "nesting_height_le nested_needs 1 (comp_need ''A'' [''B''])
   \<and> \<not> nesting_height_le nested_needs 0 (comp_need ''A'' [''B''])
   \<and> (\<forall>h. \<exists>r. draw_comp_incl_impl_int 3 h (comp_need ''A'' [''B'']) nested_needs [] [] True
               = Some r)
   \<and> (\<forall>h. draw_comp_incl_impl_int 2 h (comp_need ''A'' [''B'']) nested_needs [] [] True = None)
   \<and> (\<forall>h. \<exists>r. draw_comp_incl_impl_int 1 h (comp_need ''A'' [''B'']) cyclic_needs [] [] False
               = Some r)
   \<and> (comp_need ''A'' [''B''], comp_need ''A'' [''B'']) \<in> (container_step cyclic_needs)\<^sup>+
   \<and> (\<forall>h k. draw_comp_incl_impl_int k h (comp_need ''A'' [''B'']) cyclic_needs [] [] True = None)"
proof -
  have h1: "nesting_height_le nested_needs 1 (comp_need ''A'' [''B''])"
    and h0: "\<not> nesting_height_le nested_needs 0 (comp_need ''A'' [''B''])"
    by (simp_all add: nested_children)
  have a: "\<exists>r. draw_comp_incl_impl_int 3 h (comp_need ''A'' [''B'']) nested_needs [] [] True
               = Some r" for h
    using C1_terminates_iff_nesting_bounded
      [of nested_needs 1 "comp_need ''A'' [''B'']" 3 h "[]" "[]"] h1
    by simp
  have b: "\<exists>r. draw_comp_incl_impl_int 1 h (comp_need ''A'' [''B'']) cyclic_needs [] [] False
               = Some r" for h
    using C1_terminates_iff_nesting_bounded
      [of cyclic_needs 0 "comp_need ''A'' [''B'']" 1 h "[]" "[]"]
    by simp
  have c: "draw_comp_incl_impl_int k h (comp_need ''A'' [''B'']) cyclic_needs [] [] True = None"
    for h k
    using C1_terminates_iff_nesting_bounded
      [of cyclic_needs 0 "comp_need ''A'' [''B'']" 0 h "[]" "[]" "comp_need ''A'' [''B'']"]
      cyclic_cycle
    by (cases "draw_comp_incl_impl_int k h (comp_need ''A'' [''B'']) cyclic_needs [] [] True")
       auto
  show ?thesis using h1 h0 a b c cyclic_cycle nested_depth_2 by blast
qed

text \<open>
  C1 (counterexample). With A \<^verbatim>\<open>consists_of\<close> B and B \<^verbatim>\<open>consists_of\<close> A, no recursion
  depth suffices for the white-box drawing of A: the recursion is unbounded.
\<close>

theorem C1_cycle_counterexample:
  "\<not> (\<exists>h k r. draw_comp_incl_impl_int k h (comp_need ''A'' [''B'']) cyclic_needs [] [] True
                 = Some r)"
  using cycle_never_returns by simp

subsection \<open>The secondary components of a feature\<close>

lemma set_set_add: "set (set_add s x) = insert x (set s)"
  by (auto simp: set_add_def)

lemma enqueue_used_interfaces_sets:
  "set (fst (enqueue_used_interfaces us v pi acc))
     = set (fst acc) \<union> {u \<in> set us. u \<notin> set v \<and> u \<notin> set pi}
   \<and> set (snd (enqueue_used_interfaces us v pi acc))
     = set (snd acc) \<union> {u \<in> set us. u \<notin> set v \<and> u \<notin> set pi}"
proof (induction us arbitrary: acc)
  case Nil
  show ?case by simp
next
  case (Cons u us)
  obtain q r where acc: "acc = (q, r)" by (cases acc)
  show ?case
  proof (cases "u \<notin> set v \<and> u \<notin> set pi")
    case True
    then show ?thesis
      using Cons.IH [of "(q @ [u], set_add r u)"] unfolding acc
      by (simp add: set_set_add) blast
  next
    case False
    then show ?thesis using Cons.IH [of "(q, r)"] unfolding acc by simp blast
  qed
qed

lemma add_secondary_components_sets:
  "set (fst (add_secondary_components h an pc pi v cs acc))
     = set (fst acc) \<union> {c \<in> set cs. c \<notin> set pc \<and> map_of an c \<noteq> None}
   \<and> set (fst (snd (add_secondary_components h an pc pi v cs acc)))
     = set (fst (snd acc))
       \<union> {u. u \<notin> set v \<and> u \<notin> set pi
              \<and> (\<exists>c\<in>set cs. c \<notin> set pc \<and> \<not> is_external_baselib c \<and> u \<in> set (uses_of h an c))}
   \<and> set (snd (snd (add_secondary_components h an pc pi v cs acc)))
     = set (snd (snd acc))
       \<union> {u. u \<notin> set v \<and> u \<notin> set pi
              \<and> (\<exists>c\<in>set cs. c \<notin> set pc \<and> \<not> is_external_baselib c \<and> u \<in> set (uses_of h an c))}"
proof (induction cs arbitrary: acc)
  case Nil
  show ?case by simp
next
  case (Cons c cs)
  obtain s q r where acc: "acc = (s, q, r)" by (cases acc)
  show ?case
  proof (cases "map_of an c")
    case None
    then have "add_secondary_components h an pc pi v (c # cs) acc
                 = add_secondary_components h an pc pi v cs acc"
      unfolding acc by simp
    moreover have "uses_of h an c = []" using None by (simp add: uses_of_def)
    ultimately show ?thesis using Cons.IH [of acc] None by auto
  next
    case (Some n)
    have u: "uses_of h an c = get_interface_from_component h n ''uses'' an"
      using Some by (simp add: uses_of_def)
    show ?thesis
    proof (cases "c \<in> set pc")
      case True
      then have "add_secondary_components h an pc pi v (c # cs) acc
                   = add_secondary_components h an pc pi v cs acc"
        unfolding acc using Some by simp
      then show ?thesis using Cons.IH [of acc] True by auto
    next
      case False
      show ?thesis
      proof (cases "is_external_baselib c")
        case True
        have "add_secondary_components h an pc pi v (c # cs) acc
                = add_secondary_components h an pc pi v cs (set_add s c, q, r)"
          unfolding acc using Some False True by simp
        then show ?thesis
          using Cons.IH [of "(set_add s c, q, r)"] Some False True unfolding acc
          by (auto simp: set_set_add)
      next
        case ext: False
        let ?e = "enqueue_used_interfaces (uses_of h an c) v pi (q, r)"
        have "add_secondary_components h an pc pi v (c # cs) acc
                = add_secondary_components h an pc pi v cs (set_add s c, fst ?e, snd ?e)"
          unfolding acc u using Some False ext by (simp split: prod.splits)
        then show ?thesis
          using Cons.IH [of "(set_add s c, fst ?e, snd ?e)"] Some False ext
            enqueue_used_interfaces_sets [of "uses_of h an c" v pi "(q, r)"]
          unfolding acc
          by (auto simp: set_set_add)
      qed
    qed
  qed
qed

lemma uses_of_present: "u \<in> set (uses_of h an c) \<Longrightarrow> map_of an c \<noteq> None"
  by (cases "map_of an c") (simp_all add: uses_of_def)

lemma secondary_loop_closure:
  assumes "secondary_loop h an pc pi q v s r = (v', s', r')"
  shows "set v \<subseteq> set v' \<and> set s \<subseteq> set s' \<and> set r \<subseteq> set r'
     \<and> (\<forall>c \<in> set s' - set s. c \<notin> set pc \<and> map_of an c \<noteq> None
            \<and> (\<exists>i \<in> set v' - set v. c \<in> set (get_impl_comp_from_logic_iface h i an)))
     \<and> (\<forall>i \<in> set v' - set v. map_of an i \<noteq> None
            \<and> (i \<in> set q \<or> i \<notin> set pi
                  \<and> (\<exists>c \<in> set s'. c \<notin> set pc \<and> \<not> is_external_baselib c
                        \<and> i \<in> set (uses_of h an c)))
            \<and> (\<forall>c \<in> set (get_impl_comp_from_logic_iface h i an).
                  c \<notin> set pc \<and> map_of an c \<noteq> None \<longrightarrow> c \<in> set s'))
     \<and> (\<forall>i \<in> set r' - set r. i \<notin> set pi
            \<and> (\<exists>c \<in> set s'. c \<notin> set pc \<and> \<not> is_external_baselib c
                  \<and> i \<in> set (uses_of h an c)))"
  using assms
proof (induction h an pc pi q v s r arbitrary: v' s' r' rule: secondary_loop.induct)
  case (1 h an pc pi v s r)
  then show ?case by (simp add: secondary_loop.simps)
next
  case (2 h an pc pi iface q v s r)
  show ?case
  proof (cases "iface \<in> set v \<or> map_of an iface = None")
    case True
    then have "secondary_loop h an pc pi q v s r = (v', s', r')"
      using "2.prems" by (subst (asm) secondary_loop.simps) simp
    from "2.IH"(1) [OF True this] show ?thesis by (simp only: set_simps) blast
  next
    case False
    then have nv: "iface \<notin> set v" and pr: "map_of an iface \<noteq> None" by blast+
    define cs where "cs = get_impl_comp_from_logic_iface h iface an"
    define v1 where "v1 = set_add v iface"
    define a where "a = add_secondary_components h an pc pi v1 cs (s, q, r)"
    define U where "U = {u. u \<notin> set v1 \<and> u \<notin> set pi
          \<and> (\<exists>c\<in>set cs. c \<notin> set pc \<and> \<not> is_external_baselib c \<and> u \<in> set (uses_of h an c))}"
    have eq: "secondary_loop h an pc pi (fst (snd a)) v1 (fst a) (snd (snd a)) = (v', s', r')"
      using "2.prems" False unfolding a_def v1_def cs_def
      by (subst (asm) secondary_loop.simps) simp
    have V1: "set v1 = insert iface (set v)" by (simp add: v1_def set_set_add)
    have A1: "set (fst a) = set s \<union> {c \<in> set cs. c \<notin> set pc \<and> map_of an c \<noteq> None}"
      and A2: "set (fst (snd a)) = set q \<union> U"
      and A3: "set (snd (snd a)) = set r \<union> U"
      using add_secondary_components_sets [of h an pc pi v1 cs "(s, q, r)"]
      unfolding a_def U_def by simp_all
    have Uch: "u \<notin> set pi \<and> (\<exists>c \<in> set (fst a). c \<notin> set pc \<and> \<not> is_external_baselib c
                  \<and> u \<in> set (uses_of h an c))" if "u \<in> U" for u
    proof -
      from that obtain c where c: "c \<in> set cs" "c \<notin> set pc" "\<not> is_external_baselib c"
        "u \<in> set (uses_of h an c)" and u: "u \<notin> set pi"
        unfolding U_def by blast
      have "map_of an c \<noteq> None" using c(4) by (rule uses_of_present)
      then have "c \<in> set (fst a)" using c(1,2) A1 by blast
      then show ?thesis using c u by blast
    qed
    note IH = "2.IH"(2) [OF False, folded cs_def v1_def, OF eq [unfolded a_def], folded a_def]
    note I1 = IH [THEN conjunct1]
    note I2 = IH [THEN conjunct2, THEN conjunct1]
    note I3 = IH [THEN conjunct2, THEN conjunct2, THEN conjunct1]
    note I4 = IH [THEN conjunct2, THEN conjunct2, THEN conjunct2, THEN conjunct1, rule_format]
    note I5 = IH [THEN conjunct2, THEN conjunct2, THEN conjunct2, THEN conjunct2,
                  THEN conjunct1, rule_format]
    note I6 = IH [THEN conjunct2, THEN conjunct2, THEN conjunct2, THEN conjunct2,
                  THEN conjunct2, rule_format]
    have g1: "set v \<subseteq> set v'" using I1 V1 by blast
    have g2: "set s \<subseteq> set s'" using I2 A1 by blast
    have g3: "set r \<subseteq> set r'" using I3 A3 by blast
    have iv: "iface \<in> set v' - set v" using I1 V1 nv by blast
    have chs: "i \<notin> set pi \<and> (\<exists>c \<in> set s'. c \<notin> set pc \<and> \<not> is_external_baselib c
                  \<and> i \<in> set (uses_of h an c))" if "i \<in> U" for i
      using Uch [OF that] I2 by blast
    have g4: "c \<notin> set pc \<and> map_of an c \<noteq> None
            \<and> (\<exists>i \<in> set v' - set v. c \<in> set (get_impl_comp_from_logic_iface h i an))"
      if "c \<in> set s' - set s" for c
    proof (cases "c \<in> set (fst a)")
      case True
      then have "c \<in> set cs" "c \<notin> set pc" "map_of an c \<noteq> None" using that A1 by blast+
      then show ?thesis using iv unfolding cs_def by blast
    next
      case False
      then have "c \<in> set s' - set (fst a)" using that by blast
      from I4 [OF this] show ?thesis using V1 by blast
    qed
    have g5: "map_of an i \<noteq> None
            \<and> (i \<in> set (iface # q) \<or> i \<notin> set pi
                  \<and> (\<exists>c \<in> set s'. c \<notin> set pc \<and> \<not> is_external_baselib c
                        \<and> i \<in> set (uses_of h an c)))
            \<and> (\<forall>c \<in> set (get_impl_comp_from_logic_iface h i an).
                  c \<notin> set pc \<and> map_of an c \<noteq> None \<longrightarrow> c \<in> set s')"
      if "i \<in> set v' - set v" for i
    proof (cases "i = iface")
      case True
      have "\<forall>c \<in> set cs. c \<notin> set pc \<and> map_of an c \<noteq> None \<longrightarrow> c \<in> set s'"
        using A1 I2 by blast
      then show ?thesis using True pr unfolding cs_def by simp
    next
      case False
      then have i: "i \<in> set v' - set v1" using that V1 by blast
      note * = I5 [OF i]
      have "i \<in> set q \<or> i \<in> U \<or> i \<notin> set pi
                  \<and> (\<exists>c \<in> set s'. c \<notin> set pc \<and> \<not> is_external_baselib c
                        \<and> i \<in> set (uses_of h an c))"
        using * A2 by blast
      then have "i \<in> set q \<or> i \<notin> set pi
                  \<and> (\<exists>c \<in> set s'. c \<notin> set pc \<and> \<not> is_external_baselib c
                        \<and> i \<in> set (uses_of h an c))"
        using chs [of i] by blast
      then show ?thesis using * by simp
    qed
    have g6: "i \<notin> set pi
            \<and> (\<exists>c \<in> set s'. c \<notin> set pc \<and> \<not> is_external_baselib c
                  \<and> i \<in> set (uses_of h an c))"
      if "i \<in> set r' - set r" for i
    proof (cases "i \<in> U")
      case True
      then show ?thesis by (rule chs)
    next
      case False
      then have "i \<in> set r' - set (snd (snd a))" using that A3 by blast
      then show ?thesis by (rule I6)
    qed
    show ?thesis using g1 g2 g3 g4 g5 g6 by blast
  qed
qed

lemma set_set_update: "set (set_update s xs) = set s \<union> set xs"
  unfolding set_update_def by (induction xs arbitrary: s) (auto simp: set_set_add)

lemma set_secondary_interfaces:
  "set (secondary_interfaces h an pc) = (\<Union>c\<in>set pc. set (uses_of h an c))"
proof -
  have "set (foldl (\<lambda>acc comp_id. set_update acc (uses_of h an comp_id)) s pc)
          = set s \<union> (\<Union>c\<in>set pc. set (uses_of h an c))" for s
    by (induction pc arbitrary: s) (auto simp: set_set_update)
  then show ?thesis by (simp add: secondary_interfaces_def)
qed

text \<open>
  C2 (as amended). The closure puts every component that implements a processed
  interface, is present in the graph and is not primary into the secondary
  components, external or not, and nothing else. An external component adds no
  interface: every processed interface and every related interface outside the
  feature's own list is used by a primary component or by a secondary component that
  is not external.
\<close>

theorem C2_external_components_end_the_chain:
  assumes "secondary_closure h n an interfacelist = (visited, secondary, related)"
  shows "(\<forall>c \<in> set secondary. c \<notin> set (need_consists_of n) \<and> map_of an c \<noteq> None
            \<and> (\<exists>i \<in> set visited. c \<in> set (get_impl_comp_from_logic_iface h i an)))
     \<and> (\<forall>i \<in> set visited. \<forall>c \<in> set (get_impl_comp_from_logic_iface h i an).
            c \<notin> set (need_consists_of n) \<and> map_of an c \<noteq> None \<longrightarrow> c \<in> set secondary)
     \<and> (\<forall>i \<in> set visited. map_of an i \<noteq> None
            \<and> (\<exists>c \<in> set (need_consists_of n) \<union> {c \<in> set secondary. \<not> is_external_baselib c}.
                  i \<in> set (uses_of h an c)))
     \<and> (\<forall>i \<in> set related. i \<in> set interfacelist
            \<or> (\<exists>c \<in> set (need_consists_of n) \<union> {c \<in> set secondary. \<not> is_external_baselib c}.
                  i \<in> set (uses_of h an c)))"
proof -
  define pc where "pc = remdups (need_consists_of n)"
  define pi where "pi = remdups interfacelist"
  define q where "q = secondary_interfaces h an pc"
  have loop: "secondary_loop h an pc pi q [] [] (set_update pi q) = (visited, secondary, related)"
    using assms unfolding secondary_closure_def Let_def pc_def pi_def q_def .
  note L = secondary_loop_closure [OF loop]
  note L4 = L [THEN conjunct2, THEN conjunct2, THEN conjunct2, THEN conjunct1, rule_format]
  note L5 = L [THEN conjunct2, THEN conjunct2, THEN conjunct2, THEN conjunct2,
               THEN conjunct1, rule_format]
  note L6 = L [THEN conjunct2, THEN conjunct2, THEN conjunct2, THEN conjunct2,
               THEN conjunct2, rule_format]
  have pcs: "set pc = set (need_consists_of n)" and pis: "set pi = set interfacelist"
    by (simp_all add: pc_def pi_def)
  have qs: "set q = (\<Union>c\<in>set (need_consists_of n). set (uses_of h an c))"
    unfolding q_def set_secondary_interfaces pcs ..
  have a: "c \<notin> set (need_consists_of n) \<and> map_of an c \<noteq> None
            \<and> (\<exists>i \<in> set visited. c \<in> set (get_impl_comp_from_logic_iface h i an))"
    if "c \<in> set secondary" for c
    using L4 [of c] that pcs by auto
  have b: "c \<in> set secondary"
    if "i \<in> set visited" "c \<in> set (get_impl_comp_from_logic_iface h i an)"
      "c \<notin> set (need_consists_of n) \<and> map_of an c \<noteq> None" for i c
    using L5 [of i] that pcs by auto
  have c: "map_of an i \<noteq> None
            \<and> (\<exists>c \<in> set (need_consists_of n) \<union> {c \<in> set secondary. \<not> is_external_baselib c}.
                  i \<in> set (uses_of h an c))"
    if "i \<in> set visited" for i
  proof -
    have i: "i \<in> set visited - set []" using that by simp
    from L5 [OF i] have p: "map_of an i \<noteq> None"
      and d: "i \<in> set q \<or> (\<exists>c \<in> set secondary. \<not> is_external_baselib c
                \<and> i \<in> set (uses_of h an c))"
      by blast+
    from d show ?thesis using p qs by blast
  qed
  have d: "i \<in> set interfacelist
            \<or> (\<exists>c \<in> set (need_consists_of n) \<union> {c \<in> set secondary. \<not> is_external_baselib c}.
                  i \<in> set (uses_of h an c))"
    if "i \<in> set related" for i
  proof (cases "i \<in> set (set_update pi q)")
    case True
    then show ?thesis using pis qs by (auto simp: set_set_update)
  next
    case False
    then have "i \<in> set related - set (set_update pi q)" using that by simp
    from L6 [OF this] show ?thesis by blast
  qed
  show ?thesis using a b c d by blast
qed

lemma baselib_closure:
  "secondary_closure spec_helpers baselib_feature baselib_needs []
     = ([''I2'', ''I3''], [''C2'', ''comp__baselibs_x''], [''I2'', ''I3''])"
  by code_simp

lemma baselib_facts:
  "need_consists_of baselib_feature = [''C1'']"
  "get_impl_comp_from_logic_iface spec_helpers ''I2'' baselib_needs = [''C2'']"
  "get_impl_comp_from_logic_iface spec_helpers ''I3'' baselib_needs = [''comp__baselibs_x'']"
  "uses_of spec_helpers baselib_needs ''C1'' = [''I2'']"
  "uses_of spec_helpers baselib_needs ''C2'' = [''I3'']"
  "uses_of spec_helpers baselib_needs ''comp__baselibs_x'' = [''I4'']"
  "is_external_baselib ''comp__baselibs_x''"
  "\<not> is_external_baselib ''C2''"
  "map_of baselib_needs ''comp__baselibs_x'' \<noteq> None"
  "map_of baselib_needs ''C2'' \<noteq> None"
  "map_of baselib_needs ''I2'' \<noteq> None"
  "map_of baselib_needs ''I3'' \<noteq> None"
  "map_of baselib_needs ''I4'' \<noteq> None"
  by code_simp+

text \<open>
  In the example the closure processes I2, used by the primary component, and I3,
  used by the secondary component C2. The external component is a secondary
  component, and the interface I4 that it uses, though in the graph, is neither
  processed nor related.
\<close>

theorem C2_external_components_end_the_chain_witness:
  "secondary_closure spec_helpers baselib_feature baselib_needs []
     = ([''I2'', ''I3''], [''C2'', ''comp__baselibs_x''], [''I2'', ''I3''])
   \<and> need_consists_of baselib_feature = [''C1'']
   \<and> get_impl_comp_from_logic_iface spec_helpers ''I2'' baselib_needs = [''C2'']
   \<and> get_impl_comp_from_logic_iface spec_helpers ''I3'' baselib_needs = [''comp__baselibs_x'']
   \<and> uses_of spec_helpers baselib_needs ''C1'' = [''I2'']
   \<and> uses_of spec_helpers baselib_needs ''C2'' = [''I3'']
   \<and> uses_of spec_helpers baselib_needs ''comp__baselibs_x'' = [''I4'']
   \<and> is_external_baselib ''comp__baselibs_x'' \<and> \<not> is_external_baselib ''C2''
   \<and> map_of baselib_needs ''I4'' \<noteq> None
   \<and> ''I4'' \<notin> set [''I2'', ''I3'']"
  using C2_external_components_end_the_chain [OF baselib_closure]
  by (simp add: baselib_closure baselib_facts)

text \<open>
  C2 (counterexample). The component \<^verbatim>\<open>comp__baselibs_x\<close> carries the external prefix and
  implements the interface I3, which the closure processes: the closure of the
  feature has it among the secondary components.
\<close>

theorem C2_external_component_counterexample:
  "is_external_baselib ''comp__baselibs_x''
   \<and> ''comp__baselibs_x''
       \<in> set (fst (snd (secondary_closure spec_helpers baselib_feature baselib_needs [])))"
  by code_simp

subsection \<open>The block of an interface without an implementer\<close>

text \<open>
  C3 (evaluation at the failing input). The module M includes the component C, which
  uses the interface I; no component implements I. The first \<^verbatim>\<open>draw_module\<close>, on empty
  registries, emits the block of I after the package and registers I with the empty
  list. The second \<^verbatim>\<open>draw_module\<close>, on the registries that the first one returned,
  emits the block of I again: the registered empty list does not count as drawn.
\<close>

theorem C3_lone_interface_block_repeated:
  "interface_element ''I'' lone_needs True \<noteq> []
   \<and> draw_module 2 spec_helpers lone_module lone_needs [] []
       = Some (Inr (struct_element ''package'' lone_module @ ''  {'' @ [NL]
                      @ struct_element ''component'' (mk_need ''C'' ''comp'' [] [] [] [''I''])
                      @ ''  {'' @ [NL]
                      @ close_block (mk_need ''C'' ''comp'' [] [] [] [''I''])
                      @ close_block lone_module
                      @ interface_element ''I'' lone_needs True,
                    ''C -d[#green]-> I : uses '' @ [NL, NL],
                    [(''I'', [])], [(''I'', [''C''])]))
   \<and> draw_module 2 spec_helpers lone_module lone_needs [(''I'', [])] [(''I'', [''C''])]
       = Some (Inr (struct_element ''package'' lone_module @ ''  {'' @ [NL]
                      @ struct_element ''component'' (mk_need ''C'' ''comp'' [] [] [] [''I''])
                      @ ''  {'' @ [NL]
                      @ close_block (mk_need ''C'' ''comp'' [] [] [] [''I''])
                      @ close_block lone_module
                      @ interface_element ''I'' lone_needs True,
                    ''C -d[#green]-> I : uses '' @ [NL, NL],
                    [(''I'', [])], [(''I'', [''C'', ''C''])]))"
  by code_simp

subsection \<open>The edges of the actor\<close>

lemma implements_links_trace:
  "implements_links h an iface cs lt
     = (case implements_trace an iface cs of
          Inl e \<Rightarrow> Inl e
        | Inr links \<Rightarrow> Inr (lt @ concat (map (link_line h) links)))"
proof (induction cs arbitrary: lt)
  case Nil
  show ?case by simp
next
  case (Cons c cs)
  show ?case
    by (cases "map_of an c"; cases "map_of an iface"; cases "implements_trace an iface cs")
       (simp_all add: Cons.IH)
qed

lemma build_links_by_trace:
  "build_links h n an orig ifaces ic lt
     = (case build_links_trace an orig ifaces ic of
          Inl e \<Rightarrow> Inl e
        | Inr links \<Rightarrow> Inr (lt @ concat (map (link_line h) links)))"
proof (induction ifaces arbitrary: lt)
  case Nil
  show ?case by simp
next
  case (Cons i ifaces)
  show ?case
  proof (cases "get_list ic i = []")
    case True
    then show ?thesis by (simp add: Cons.IH)
  next
    case False
    show ?thesis
      by (cases "i \<in> set orig"; cases "map_of an i";
          cases "implements_trace an i (get_list ic i)";
          cases "build_links_trace an orig ifaces ic")
         (simp_all add: False Cons.IH implements_links_trace)
  qed
qed

lemma implements_trace_no_actor:
  "implements_trace an iface cs = Inr links \<Longrightarrow> Actor_use i b \<notin> set links"
proof (induction cs arbitrary: links)
  case Nil
  then show ?case by simp
next
  case (Cons c cs)
  then show ?case
    by (cases "map_of an c"; cases "map_of an iface"; cases "implements_trace an iface cs")
       auto
qed

lemma implements_trace_returns:
  "map_of an iface \<noteq> None \<Longrightarrow> \<exists>links. implements_trace an iface cs = Inr links"
proof (induction cs)
  case Nil
  show ?case by simp
next
  case (Cons c cs)
  then show ?case by (cases "map_of an c") auto
qed

lemma build_links_trace_actor:
  "build_links_trace an orig ifaces ic = Inr links \<Longrightarrow>
     (Actor_use i b \<in> set links
        \<longleftrightarrow> i \<in> set ifaces \<and> i \<in> set orig \<and> get_list ic i \<noteq> [] \<and> map_of an i = Some b)"
proof (induction ifaces arbitrary: links)
  case Nil
  then show ?case by simp
next
  case (Cons a ifaces)
  show ?case
  proof (cases "get_list ic a = []")
    case True
    then have "build_links_trace an orig ifaces ic = Inr links" using Cons.prems by simp
    from Cons.IH [OF this] True show ?thesis by auto
  next
    case False
    define actor where "actor = (if a \<in> set orig
        then (case map_of an a of None \<Rightarrow> Inl (KeyError a)
              | Some iface_need \<Rightarrow> Inr [Actor_use a iface_need])
        else Inr [])"
    have step: "build_links_trace an orig (a # ifaces) ic
        = (case actor of Inl e \<Rightarrow> Inl e
           | Inr act \<Rightarrow>
               (case implements_trace an a (get_list ic a) of Inl e \<Rightarrow> Inl e
                | Inr ls \<Rightarrow>
                    (case build_links_trace an orig ifaces ic of Inl e \<Rightarrow> Inl e
                     | Inr others \<Rightarrow> Inr (act @ ls @ others))))"
      using False by (simp add: actor_def)
    from Cons.prems obtain act ls others where
      act: "actor = Inr act" and ls: "implements_trace an a (get_list ic a) = Inr ls"
      and others: "build_links_trace an orig ifaces ic = Inr others"
      and links: "links = act @ ls @ others"
      unfolding step by (auto split: sum.splits)
    have na: "Actor_use i b \<notin> set ls" using ls by (rule implements_trace_no_actor)
    have a: "Actor_use i b \<in> set act \<longleftrightarrow> i = a \<and> a \<in> set orig \<and> map_of an a = Some b"
      using act unfolding actor_def by (auto split: if_splits option.splits)
    show ?thesis unfolding links using na a Cons.IH [OF others] False by auto
  qed
qed

lemma build_links_trace_returns:
  "(\<And>i. i \<in> set ifaces \<Longrightarrow> get_list ic i \<noteq> [] \<Longrightarrow> map_of an i \<noteq> None)
     \<Longrightarrow> \<exists>links. build_links_trace an orig ifaces ic = Inr links"
proof (induction ifaces)
  case Nil
  show ?case by simp
next
  case (Cons a ifaces)
  have "\<exists>links. build_links_trace an orig ifaces ic = Inr links"
    by (rule Cons.IH) (rule Cons.prems, simp_all)
  then obtain others where others: "build_links_trace an orig ifaces ic = Inr others" ..
  show ?case
  proof (cases "get_list ic a = []")
    case True
    then show ?thesis using others by simp
  next
    case False
    then have "map_of an a \<noteq> None" using Cons.prems [of a] by simp
    then obtain b where b: "map_of an a = Some b" by auto
    from implements_trace_returns [of an a "get_list ic a"] b
    obtain ls where "implements_trace an a (get_list ic a) = Inr ls" by auto
    then show ?thesis using False b others by simp
  qed
qed

lemma update_impl_comp_entries:
  "map_of (update_impl_comp h an comps excluded ifaces ic) i = Some cs \<Longrightarrow>
     map_of ic i = Some cs
     \<or> (i \<in> set ifaces \<and> map_of an i \<noteq> None \<and> cs \<noteq> []
         \<and> set cs \<subseteq> set (get_impl_comp_from_logic_iface h i an) \<inter> set comps - set excluded)"
proof (induction ifaces arbitrary: ic)
  case Nil
  then show ?case by simp
next
  case (Cons a ifaces)
  let ?f = "filter (\<lambda>c. c \<in> set comps \<and> c \<notin> set excluded)
              (get_impl_comp_from_logic_iface h a an)"
  show ?case
  proof (cases "map_of an a \<noteq> None \<and> get_impl_comp_from_logic_iface h a an \<noteq> [] \<and> ?f \<noteq> []")
    case False
    then have "update_impl_comp h an comps excluded (a # ifaces) ic
                 = update_impl_comp h an comps excluded ifaces ic"
      by auto
    with Cons.prems
    have "map_of (update_impl_comp h an comps excluded ifaces ic) i = Some cs" by simp
    from Cons.IH [OF this] show ?thesis by auto
  next
    case True
    then obtain y where y: "map_of an a = Some y" by auto
    have ne: "get_impl_comp_from_logic_iface h a an \<noteq> []" "?f \<noteq> []" using True by blast+
    have "update_impl_comp h an comps excluded (a # ifaces) ic
                 = update_impl_comp h an comps excluded ifaces (AList.update a ?f ic)"
      using y ne by simp
    with Cons.prems
    have "map_of (update_impl_comp h an comps excluded ifaces (AList.update a ?f ic)) i = Some cs"
      by simp
    from Cons.IH [OF this]
    have "map_of (AList.update a ?f ic) i = Some cs
     \<or> (i \<in> set ifaces \<and> map_of an i \<noteq> None \<and> cs \<noteq> []
         \<and> set cs \<subseteq> set (get_impl_comp_from_logic_iface h i an) \<inter> set comps - set excluded)" .
    then show ?thesis
    proof
      assume "map_of (AList.update a ?f ic) i = Some cs"
      then have "(i = a \<and> cs = ?f) \<or> (i \<noteq> a \<and> map_of ic i = Some cs)"
        by (auto simp: update_conv' split: if_splits)
      then show ?thesis using True by auto
    next
      assume "i \<in> set ifaces \<and> map_of an i \<noteq> None \<and> cs \<noteq> []
         \<and> set cs \<subseteq> set (get_impl_comp_from_logic_iface h i an) \<inter> set comps - set excluded"
      then show ?thesis by simp
    qed
  qed
qed

text \<open>
  C6 (as amended). Let the closure of a feature return the implementer mapping
  \<^verbatim>\<open>impl_comp\<close>. Then \<^verbatim>\<open>_build_links\<close> returns, the text of \<^verbatim>\<open>draw_full_feature\<close> ends in the
  link text of the modules followed by one line for every link of the trace, with
  repeated lines removed, and the trace has an edge of the actor to an interface
  exactly when the interface is one of the feature's own interfaces and has an entry
  in \<^verbatim>\<open>impl_comp\<close>. An entry exists only for an interface of the graph with at least one
  implementing component. So a secondary interface never gets an edge of the actor,
  and neither does a primary interface without an eligible implementing component.
\<close>

theorem C6_actor_edge_iff_primary_with_implementer:
  assumes "collect_interfaces_and_modules k h n an (feature_interfaces h n an) [] [] [] []
             (actor_line h) []
           = Some (Inr (structure_text, link_text, proc_impl, proc_used, impl_comp, proc_modules))"
  shows "\<exists>links.
      build_links_trace an (feature_interfaces h n an) (map fst impl_comp) impl_comp = Inr links
    \<and> draw_full_feature k h n an
        = Some (Inr (gen_header h @ structure_text
                     @ remove_duplicate_links (link_text @ concat (map (link_line h) links))))
    \<and> (\<forall>i b. Actor_use i b \<in> set links
          \<longleftrightarrow> i \<in> set (feature_interfaces h n an) \<and> map_of impl_comp i \<noteq> None
              \<and> map_of an i = Some b)
    \<and> (\<forall>i cs. map_of impl_comp i = Some cs
          \<longrightarrow> map_of an i \<noteq> None \<and> cs \<noteq> []
              \<and> set cs \<subseteq> set (get_impl_comp_from_logic_iface h i an))"
proof -
  from assms obtain comps excluded ifaces
    where ic: "impl_comp = update_impl_comp h an comps excluded ifaces []"
    unfolding collect_interfaces_and_modules_def Let_def
    by (auto split: option.splits sum.splits)
  have entry: "map_of an i \<noteq> None \<and> cs \<noteq> []
                \<and> set cs \<subseteq> set (get_impl_comp_from_logic_iface h i an)"
    if "map_of impl_comp i = Some cs" for i cs
    using update_impl_comp_entries [OF that [unfolded ic]] by auto
  have gl: "get_list impl_comp i \<noteq> [] \<longleftrightarrow> map_of impl_comp i \<noteq> None" for i
    using entry [of i] by (cases "map_of impl_comp i") (auto simp: get_list_def)
  have keys: "i \<in> set (map fst impl_comp) \<longleftrightarrow> map_of impl_comp i \<noteq> None" for i
    by (simp add: map_of_eq_None_iff)
  have "\<exists>links. build_links_trace an (feature_interfaces h n an) (map fst impl_comp) impl_comp
                  = Inr links"
  proof (rule build_links_trace_returns)
    fix i
    assume "get_list impl_comp i \<noteq> []"
    then obtain cs where "map_of impl_comp i = Some cs" using gl by auto
    then show "map_of an i \<noteq> None" using entry by blast
  qed
  then obtain links where
    links: "build_links_trace an (feature_interfaces h n an) (map fst impl_comp) impl_comp
              = Inr links" ..
  have dff: "draw_full_feature k h n an
        = Some (Inr (gen_header h @ structure_text
                     @ remove_duplicate_links (link_text @ concat (map (link_line h) links))))"
    unfolding draw_full_feature_def assms by (simp add: build_links_by_trace links)
  have actor: "Actor_use i b \<in> set links
          \<longleftrightarrow> i \<in> set (feature_interfaces h n an) \<and> map_of impl_comp i \<noteq> None
              \<and> map_of an i = Some b" for i b
    unfolding build_links_trace_actor [OF links] gl keys by blast
  show ?thesis using links dff actor entry by blast
qed

lemma scenario_collect:
  "collect_interfaces_and_modules 1 spec_helpers scenario_feature scenario_needs
     (feature_interfaces spec_helpers scenario_feature scenario_needs) [] [] [] []
     (actor_line spec_helpers) []
   = Some (Inr (actor_line spec_helpers, [], [], [],
                [(''I1'', [''C1'']), (''I2'', [''C2''])], []))"
  by code_simp

lemma scenario_facts:
  "feature_interfaces spec_helpers scenario_feature scenario_needs = [''I1'']"
  "build_links_trace scenario_needs [''I1''] [''I1'', ''I2'']
     [(''I1'', [''C1'']), (''I2'', [''C2''])]
   = Inr [Actor_use ''I1'' (mk_need ''I1'' ''interface'' [] [] [] []),
          Implements ''C1'' (mk_need ''C1'' ''comp'' [] [] [''I1''] [''I2''])
            ''I1'' (mk_need ''I1'' ''interface'' [] [] [] []),
          Implements ''C2'' (mk_need ''C2'' ''comp'' [] [] [''I2''] [])
            ''I2'' (mk_need ''I2'' ''interface'' [] [] [] [])]"
  "draw_full_feature 1 spec_helpers scenario_feature scenario_needs
   = Some (Inr (actor_line spec_helpers
                @ ''Feature_User -d-> I1 : use '' @ [NL]
                @ ''C1 -u-> I1 : implements '' @ [NL]
                @ ''C2 -u-> I2 : implements '' @ [NL, NL]))"
  by code_simp+

theorem C6_actor_edge_iff_primary_with_implementer_witness:
  "collect_interfaces_and_modules 1 spec_helpers scenario_feature scenario_needs
     (feature_interfaces spec_helpers scenario_feature scenario_needs) [] [] [] []
     (actor_line spec_helpers) []
   = Some (Inr (actor_line spec_helpers, [], [], [],
                [(''I1'', [''C1'']), (''I2'', [''C2''])], []))
   \<and> feature_interfaces spec_helpers scenario_feature scenario_needs = [''I1'']
   \<and> build_links_trace scenario_needs [''I1''] [''I1'', ''I2'']
        [(''I1'', [''C1'']), (''I2'', [''C2''])]
      = Inr [Actor_use ''I1'' (mk_need ''I1'' ''interface'' [] [] [] []),
             Implements ''C1'' (mk_need ''C1'' ''comp'' [] [] [''I1''] [''I2''])
               ''I1'' (mk_need ''I1'' ''interface'' [] [] [] []),
             Implements ''C2'' (mk_need ''C2'' ''comp'' [] [] [''I2''] [])
               ''I2'' (mk_need ''I2'' ''interface'' [] [] [] [])]
   \<and> draw_full_feature 1 spec_helpers scenario_feature scenario_needs
      = Some (Inr (actor_line spec_helpers
                   @ ''Feature_User -d-> I1 : use '' @ [NL]
                   @ ''C1 -u-> I1 : implements '' @ [NL]
                   @ ''C2 -u-> I2 : implements '' @ [NL, NL]))"
  using C6_actor_edge_iff_primary_with_implementer [OF scenario_collect]
  by (simp only: scenario_collect [unfolded scenario_facts(1)] scenario_facts simp_thms)

text \<open>
  C6 (counterexample). The feature includes the interface I1, which is in the graph
  and which no component implements. I1 is a primary interface, and the text of
  \<^verbatim>\<open>draw_full_feature\<close> is the line of the actor and an empty link text: there is no
  edge of the actor to I1.
\<close>

theorem C6_unimplemented_primary_interface_counterexample:
  "''I1'' \<in> set (feature_interfaces spec_helpers orphan_feature orphan_needs)
   \<and> draw_full_feature 1 spec_helpers orphan_feature orphan_needs
      = Some (Inr (actor_line spec_helpers @ [NL]))"
  by code_simp

end
